theory Spec2Isabelle
  imports Main
begin

section \<open>The connection hook \<open>useSocket\<close> (src/src/hooks/useSocket.ts)\<close>

text \<open>
  The hook owns one socket.io transport per user token and mirrors the transport's events
  into three pieces of React state (\<open>isConnected\<close>, \<open>isConnecting\<close>,
  \<open>connectionQuality\<close>) and five refs. JavaScript runs every callback to completion on one
  event loop, so the hook is modelled as a state record and one function per callback; the
  environment (React, the transport, the timers) chooses which callback runs next.
\<close>

subsection \<open>Values\<close>

text \<open>\<open>'good' | 'poor' | 'disconnected'\<close>, the type of \<open>connectionQuality\<close>.\<close>

datatype quality = Good | Poor | QDisconnected

text \<open>The three connection states of the specification (section 3).\<close>

datatype connection_state = Disconnected | Connecting | Connected

text \<open>
  Event arguments are typed \<open>any\<close> in the source (\<open>error: any\<close>, \<open>data: any\<close>): whatever the
  transport decoded from the wire, so objects carry data properties only. Numbers are kept
  as integers, the hook reading them into log lines only.
\<close>

datatype js_value =
    Undefined
  | Null
  | Bool bool
  | Num int
  | Str string
  | Arr "js_value list"
  | Obj "(string \<times> js_value) list"

datatype error = TypeError

text \<open>The promise returned by \<open>ensureConnected\<close>; it settles once.\<close>

datatype promise = Pending | Resolved bool | Rejected

text \<open>
  The callbacks the hook registers on the transport: the six handlers of the effect and the
  one-shot \<open>onConnect\<close> closure of an \<open>ensureConnected\<close> call, which captures the call's
  promise and its timeout handle.
\<close>

datatype handler =
    HConnect
  | HDisconnect
  | HConnectError
  | HReconnect
  | HReconnectAttempt
  | HPong
  | HOnConnect nat nat

text \<open>
  The transport object (\<open>Socket\<close> of socket.io-client, outside the repository) as far as
  the hook uses it: the \<open>connected\<close> flag it reads, the listener registry behind
  \<open>on\<close>/\<open>off\<close>, in registration order, and the number of \<open>connect()\<close> calls made on it.
\<close>

record socket =
  connected :: bool
  listeners :: "(string \<times> handler) list"
  connectCalls :: nat

datatype phase = Fresh | Mounted | Unmounted

text \<open>
  The hook instance. The first eight fields are the refs and state variables of the source,
  under their names (\<open>socketRef\<close> holds the transport object itself; \<open>None\<close> is \<open>null\<close>;
  \<open>pingIntervalRef\<close> holds a timer handle, typed \<open>NodeJS.Timeout | null\<close>, so that its
  truth test is the test for \<open>null\<close>).
  The others are the environment the callbacks act on: the active \<open>setInterval\<close> handles,
  the pending \<open>setTimeout\<close> entries (handle, due time, promise of the waiting call), the
  handle counter, the promises handed out, the calls received by
  \<open>offlineMessageService.setOnlineStatus\<close>, the \<open>ping\<close> events emitted, the exceptions that
  escaped a listener, and React's bookkeeping for the effect (the token of the last run,
  whether the component is mounted, whether the last run returned a cleanup function).
\<close>

record hook =
  socketRef :: "socket option"
  isConnected :: bool
  isConnecting :: bool
  connectionQuality :: quality
  reconnectAttempts :: nat
  connectionStartTime :: int
  lastPingTime :: int
  pingIntervalRef :: "nat option"
  intervals :: "nat list"
  timeouts :: "(nat \<times> int \<times> nat) list"
  nextTimer :: nat
  promises :: "promise list"
  onlineStatus :: "bool list"
  emitted :: "(string \<times> int) list"
  uncaught :: "error list"
  userToken :: "string option"
  phase :: phase
  hasCleanup :: bool

definition maxReconnectAttempts :: nat where
  "maxReconnectAttempts = 10"

definition initial :: hook where
  "initial = \<lparr> socketRef = None, isConnected = False, isConnecting = False,
     connectionQuality = QDisconnected, reconnectAttempts = 0, connectionStartTime = 0,
     lastPingTime = 0, pingIntervalRef = None, intervals = [], timeouts = [], nextTimer = 1,
     promises = [], onlineStatus = [], emitted = [], uncaught = [], userToken = None,
     phase = Fresh, hasCleanup = False \<rparr>"

text \<open>
  The connection state of the specification, read off the two flags the hook returns:
  \<open>isConnected\<close> is Connected; otherwise \<open>isConnecting\<close> tells Connecting from Disconnected.
\<close>

definition connectionState :: "hook \<Rightarrow> connection_state" where
  "connectionState s =
     (if isConnected s then Connected else if isConnecting s then Connecting else Disconnected)"

subsection \<open>Primitives of the environment\<close>

text \<open>\<open>socketRef.current?.connected\<close>: false when there is no transport.\<close>

definition transportConnected :: "hook \<Rightarrow> bool" where
  "transportConnected s = (case socketRef s of None \<Rightarrow> False | Some sk \<Rightarrow> connected sk)"

text \<open>
  Reading \<open>v.message\<close> or \<open>v.timestamp\<close>: a TypeError on \<open>undefined\<close> and \<open>null\<close>, the field
  (the last one of that name) on an object, and \<open>undefined\<close> on a boolean, a number, a string
  or an array, which have no property of either name.
\<close>

fun property :: "js_value \<Rightarrow> string \<Rightarrow> error + js_value" where
  "property Undefined k = Inl TypeError"
| "property Null k = Inl TypeError"
| "property (Obj fs) k = Inr (case map_of (rev fs) k of None \<Rightarrow> Undefined | Some v \<Rightarrow> v)"
| "property (Bool b) k = Inr Undefined"
| "property (Num n) k = Inr Undefined"
| "property (Str t) k = Inr Undefined"
| "property (Arr vs) k = Inr Undefined"

text \<open>
  Truthiness, as \<open>||\<close> tests it.
\<close>

fun truthy :: "js_value \<Rightarrow> bool" where
  "truthy Undefined = False"
| "truthy Null = False"
| "truthy (Bool b) = b"
| "truthy (Num n) = (n \<noteq> 0)"
| "truthy (Str t) = (t \<noteq> [])"
| "truthy (Arr vs) = True"
| "truthy (Obj fs) = True"

text \<open>
  Whether a value converts to a primitive, as a template literal and the operator \<open>-\<close>
  require; otherwise they throw a TypeError. A decoded object inherits \<open>valueOf\<close>, which
  returns the object itself, and \<open>toString\<close>, which returns a string; a property of its own
  named \<open>toString\<close> shadows the latter with a value that cannot be called, and then the
  conversion fails. An array converts by joining its elements, each converted in turn
  (\<open>undefined\<close> and \<open>null\<close> as the empty string).
\<close>

fun convertible :: "js_value \<Rightarrow> bool" where
  "convertible (Obj fs) = (''toString'' \<notin> set (map fst fs))"
| "convertible (Arr vs) = (\<forall>v\<in>set vs. convertible v)"
| "convertible v = True"

definition setOnlineStatus :: "bool \<Rightarrow> hook \<Rightarrow> hook" where
  "setOnlineStatus b s = s\<lparr>onlineStatus := onlineStatus s @ [b]\<rparr>"

definition clearInterval :: "nat \<Rightarrow> hook \<Rightarrow> hook" where
  "clearInterval i s = s\<lparr>intervals := removeAll i (intervals s)\<rparr>"

definition clearTimeout :: "nat \<Rightarrow> hook \<Rightarrow> hook" where
  "clearTimeout t s = s\<lparr>timeouts := filter (\<lambda>(i, due, k). i \<noteq> t) (timeouts s)\<rparr>"

text \<open>\<open>resolve(v)\<close>: settles a pending promise and does nothing to a settled one.\<close>

definition resolve :: "nat \<Rightarrow> bool \<Rightarrow> hook \<Rightarrow> hook" where
  "resolve k v s =
     (if k < length (promises s) \<and> promises s ! k = Pending
      then s\<lparr>promises := (promises s)[k := Resolved v]\<rparr> else s)"

text \<open>\<open>off(name, fn)\<close> removes one registration of \<open>fn\<close>; without a transport it is skipped.\<close>

definition socket_off :: "string \<Rightarrow> handler \<Rightarrow> hook \<Rightarrow> hook" where
  "socket_off n h s =
     (case socketRef s of None \<Rightarrow> s
      | Some sk \<Rightarrow> s\<lparr>socketRef := Some (sk\<lparr>listeners := remove1 (n, h) (listeners sk)\<rparr>)\<rparr>)"

subsection \<open>The callbacks of the hook\<close>

definition checkConnectionQuality :: "int \<Rightarrow> hook \<Rightarrow> hook" where
  "checkConnectionQuality now s =
     (if \<not> transportConnected s then s\<lparr>connectionQuality := QDisconnected\<rparr>
      else let pingTime = now - lastPingTime s in
        if pingTime < 500 then s\<lparr>connectionQuality := Good\<rparr>
        else if pingTime < 2000 then s\<lparr>connectionQuality := Poor\<rparr>
        else s\<lparr>connectionQuality := QDisconnected\<rparr>)"

definition sendPing :: "int \<Rightarrow> hook \<Rightarrow> hook" where
  "sendPing now s =
     (if transportConnected s
      then s\<lparr>lastPingTime := now, emitted := emitted s @ [(''ping'', now)]\<rparr> else s)"

definition handleConnect :: "int \<Rightarrow> hook \<Rightarrow> hook" where
  "handleConnect now s =
     (let s1 = s\<lparr>isConnected := True, isConnecting := False, connectionQuality := Good,
                 reconnectAttempts := 0\<rparr>;
          s2 = setOnlineStatus True s1;
          s3 = (case pingIntervalRef s2 of Some i \<Rightarrow> clearInterval i s2 | None \<Rightarrow> s2);
          s4 = s3\<lparr>pingIntervalRef := Some (nextTimer s3),
                  intervals := intervals s3 @ [nextTimer s3],
                  nextTimer := Suc (nextTimer s3)\<rparr>
      in sendPing now s4)"

text \<open>
  Each of the five handlers below opens with a log line; four of them format their
  argument (or its \<open>message\<close>) in a template literal, and \<open>handlePong\<close> subtracts the
  timestamp of its argument. Where that throws, no update has been made yet. The parameters
  \<open>reason\<close> and \<open>attemptNumber\<close> are typed \<open>string\<close> and \<open>number\<close>, which always convert.
\<close>

definition handleDisconnect :: "js_value \<Rightarrow> hook \<Rightarrow> error + hook" where
  "handleDisconnect reason s =
     (if \<not> convertible reason then Inl TypeError
      else
        let s1 = s\<lparr>isConnected := False, connectionQuality := QDisconnected\<rparr>;
            s2 = setOnlineStatus False s1;
            s3 = (case pingIntervalRef s2 of
                    Some i \<Rightarrow> (clearInterval i s2)\<lparr>pingIntervalRef := None\<rparr>
                  | None \<Rightarrow> s2)
        in if reason \<noteq> Str ''io client disconnect'' then
             let s4 = s3\<lparr>isConnecting := True, reconnectAttempts := reconnectAttempts s3 + 1\<rparr>
             in if reconnectAttempts s4 \<ge> maxReconnectAttempts
                then Inr (s4\<lparr>isConnecting := False\<rparr>) else Inr s4
           else Inr s3)"

text \<open>
  \<open>handleConnectError\<close> formats \<open>error.message\<close>: reading the property throws when the
  argument is \<open>undefined\<close> or \<open>null\<close>, and formatting it throws when it does not convert.
\<close>

definition handleConnectError :: "js_value \<Rightarrow> hook \<Rightarrow> error + hook" where
  "handleConnectError err s =
     (case property err ''message'' of
        Inl e \<Rightarrow> Inl e
      | Inr m \<Rightarrow>
          if \<not> convertible m then Inl TypeError
          else Inr (setOnlineStatus False
            (s\<lparr>isConnected := False, isConnecting := False, connectionQuality := QDisconnected,
               reconnectAttempts := reconnectAttempts s + 1\<rparr>)))"

definition handleReconnect :: "js_value \<Rightarrow> hook \<Rightarrow> error + hook" where
  "handleReconnect attemptNumber s =
     (if \<not> convertible attemptNumber then Inl TypeError
      else Inr (setOnlineStatus True (s\<lparr>isConnecting := False\<rparr>)))"

definition handleReconnectAttempt :: "js_value \<Rightarrow> hook \<Rightarrow> error + hook" where
  "handleReconnectAttempt attemptNumber s =
     (if \<not> convertible attemptNumber then Inl TypeError
      else Inr (s\<lparr>isConnecting := True\<rparr>))"

text \<open>
  \<open>handlePong\<close> computes \<open>Date.now() - (data.timestamp || lastPingTime.current)\<close> for its
  log line, then calls \<open>checkConnectionQuality()\<close>, which takes no argument. Reading the
  property throws when the payload is \<open>undefined\<close> or \<open>null\<close>; the subtraction throws when
  the timestamp is truthy and does not convert (a falsy one gives way to the number in
  \<open>lastPingTime\<close>).
\<close>

definition handlePong :: "js_value \<Rightarrow> int \<Rightarrow> hook \<Rightarrow> error + hook" where
  "handlePong data now s =
     (case property data ''timestamp'' of
        Inl e \<Rightarrow> Inl e
      | Inr ts \<Rightarrow>
          if truthy ts \<and> \<not> convertible ts then Inl TypeError
          else Inr (checkConnectionQuality now s))"

text \<open>The two closures of an \<open>ensureConnected\<close> call with promise \<open>k\<close> and timeout handle \<open>t\<close>.\<close>

definition onTimeout :: "nat \<Rightarrow> hook \<Rightarrow> hook" where
  "onTimeout k s = resolve k False (s\<lparr>isConnecting := False\<rparr>)"

definition onConnect :: "nat \<Rightarrow> nat \<Rightarrow> hook \<Rightarrow> hook" where
  "onConnect k t s =
     socket_off ''connect'' (HOnConnect k t)
       (resolve k True ((clearTimeout t s)\<lparr>isConnecting := False\<rparr>))"

text \<open>
  \<open>ensureConnected\<close> runs the promise executor synchronously. The new promise is the one at
  index \<open>length (promises s)\<close>.
\<close>

definition ensureConnected :: "int \<Rightarrow> hook \<Rightarrow> hook" where
  "ensureConnected now s =
     (let k = length (promises s);
          s0 = s\<lparr>promises := promises s @ [Pending]\<rparr>
      in if transportConnected s0 then resolve k True s0
         else case socketRef s0 of
           None \<Rightarrow> resolve k False s0
         | Some sk \<Rightarrow>
             let s1 = s0\<lparr>isConnecting := True\<rparr>;
                 sk1 = (if \<not> connected sk then sk\<lparr>connectCalls := connectCalls sk + 1\<rparr>
                        else sk);
                 t = nextTimer s1;
                 s2 = s1\<lparr>timeouts := timeouts s1 @ [(t, now + 10000, k)],
                         nextTimer := Suc t\<rparr>
             in s2\<lparr>socketRef :=
                  Some (sk1\<lparr>listeners := listeners sk1 @ [(''connect'', HOnConnect k t)]\<rparr>)\<rparr>)"

subsection \<open>Event delivery\<close>

text \<open>
  A listener is called with the event's argument. A handler registered under another
  event's name would receive that event's argument just the same.
\<close>

fun call :: "handler \<Rightarrow> js_value \<Rightarrow> int \<Rightarrow> hook \<Rightarrow> error + hook" where
  "call HConnect arg now s = Inr (handleConnect now s)"
| "call HDisconnect arg now s = handleDisconnect arg s"
| "call HConnectError arg now s = handleConnectError arg s"
| "call HReconnect arg now s = handleReconnect arg s"
| "call HReconnectAttempt arg now s = handleReconnectAttempt arg s"
| "call HPong arg now s = handlePong arg now s"
| "call (HOnConnect k t) arg now s = Inr (onConnect k t s)"

text \<open>
  The emitter calls the listeners in registration order; an exception thrown by one of them
  skips the rest and escapes to the event loop.
\<close>

fun dispatch :: "handler list \<Rightarrow> js_value \<Rightarrow> int \<Rightarrow> hook \<Rightarrow> hook" where
  "dispatch [] arg now s = s"
| "dispatch (h # hs) arg now s =
     (case call h arg now s of
        Inl e \<Rightarrow> s\<lparr>uncaught := uncaught s @ [e]\<rparr>
      | Inr s' \<Rightarrow> dispatch hs arg now s')"

definition listenersFor :: "string \<Rightarrow> socket \<Rightarrow> handler list" where
  "listenersFor name sk = map snd (filter (\<lambda>(n, h). n = name) (listeners sk))"

text \<open>
  The transport emits the event \<open>name\<close> with one argument: it sets its \<open>connected\<close> flag
  before \<open>connect\<close> and clears it before \<open>disconnect\<close>, then calls the listeners that are
  registered under \<open>name\<close> at that moment.
\<close>

definition transport_emit :: "string \<Rightarrow> js_value \<Rightarrow> int \<Rightarrow> hook \<Rightarrow> hook" where
  "transport_emit name arg now s =
     (case socketRef s of
        None \<Rightarrow> s
      | Some sk \<Rightarrow>
          let sk' = (if name = ''connect'' then sk\<lparr>connected := True\<rparr>
                     else if name = ''disconnect'' then sk\<lparr>connected := False\<rparr>
                     else sk)
          in dispatch (listenersFor name sk') arg now (s\<lparr>socketRef := Some sk'\<rparr>))"

text \<open>\<open>socket.disconnect()\<close>: a connected transport closes and emits \<open>disconnect\<close> itself.\<close>

definition socket_disconnect :: "int \<Rightarrow> hook \<Rightarrow> hook" where
  "socket_disconnect now s =
     (if transportConnected s
      then transport_emit ''disconnect'' (Str ''io client disconnect'') now s else s)"

subsection \<open>The effect and its cleanup\<close>

definition core_listeners :: "(string \<times> handler) list" where
  "core_listeners =
     [(''connect'', HConnect), (''disconnect'', HDisconnect),
      (''connect_error'', HConnectError), (''reconnect'', HReconnect),
      (''reconnect_attempt'', HReconnectAttempt), (''pong'', HPong)]"

text \<open>The function the effect returns; its \<open>socket\<close> is the one \<open>socketRef\<close> still holds.\<close>

definition cleanup :: "int \<Rightarrow> hook \<Rightarrow> hook" where
  "cleanup now s =
     (let s1 = (case pingIntervalRef s of Some i \<Rightarrow> clearInterval i s | None \<Rightarrow> s);
          s2 = socket_off ''connect'' HConnect s1;
          s3 = socket_off ''disconnect'' HDisconnect s2;
          s4 = socket_off ''connect_error'' HConnectError s3;
          s5 = socket_off ''reconnect'' HReconnect s4;
          s6 = socket_off ''reconnect_attempt'' HReconnectAttempt s5;
          s7 = socket_off ''pong'' HPong s6
      in socket_disconnect now s7)"

text \<open>\<open>!userToken\<close> holds for \<open>null\<close> and for the empty string.\<close>

definition no_token :: "string option \<Rightarrow> bool" where
  "no_token tok = (tok = None \<or> tok = Some [])"

definition effect :: "string option \<Rightarrow> int \<Rightarrow> hook \<Rightarrow> hook" where
  "effect tok now s =
     (if no_token tok then
        let s1 = (case socketRef s of
                    Some sk \<Rightarrow> (socket_disconnect now s)\<lparr>socketRef := None\<rparr>
                  | None \<Rightarrow> s);
            s2 = s1\<lparr>isConnected := False, isConnecting := False,
                    connectionQuality := QDisconnected\<rparr>
        in (setOnlineStatus False s2)\<lparr>hasCleanup := False\<rparr>
      else
        let s1 = s\<lparr>isConnecting := True, connectionStartTime := now\<rparr>
        in s1\<lparr>socketRef := Some \<lparr>connected = False, listeners = core_listeners,
                                  connectCalls = 0\<rparr>,
              hasCleanup := True\<rparr>)"

text \<open>
  React runs the effect on the first render and again when the token differs from the one
  of the last run, after the cleanup the last run returned; unmounting runs that cleanup.
  (The other two dependencies of the effect, \<open>sendPing\<close> and \<open>checkConnectionQuality\<close>, are
  callbacks without dependencies and never change.) The refs and the closures outlive the
  component, so callbacks that fire after unmounting still act on the record.
\<close>

definition render :: "string option \<Rightarrow> int \<Rightarrow> hook \<Rightarrow> hook" where
  "render tok now s =
     (case phase s of
        Unmounted \<Rightarrow> s
      | Fresh \<Rightarrow> (effect tok now s)\<lparr>userToken := tok, phase := Mounted\<rparr>
      | Mounted \<Rightarrow>
          if tok = userToken s then s
          else (effect tok now (if hasCleanup s then cleanup now s else s))\<lparr>userToken := tok\<rparr>)"

definition unmount :: "int \<Rightarrow> hook \<Rightarrow> hook" where
  "unmount now s =
     (case phase s of
        Mounted \<Rightarrow> (if hasCleanup s then cleanup now s else s)\<lparr>phase := Unmounted,
                                                                hasCleanup := False\<rparr>
      | _ \<Rightarrow> s)"

subsection \<open>The event loop\<close>

datatype action =
    Render "string option"
  | Unmount
  | Transport string js_value
  | IntervalFire nat
  | TimeoutFire nat
  | EnsureConnected
  | SendPing

text \<open>
  One turn of the event loop at time \<open>now\<close> (the value of \<open>Date.now()\<close>). A cancelled
  interval or timeout does not fire, and a timeout does not fire before it is due. The
  transport events are those of the transport the hook holds in \<open>socketRef\<close>; a transport
  that the effect has replaced was closed by the cleanup and is not followed further.
\<close>

fun step :: "int \<Rightarrow> action \<Rightarrow> hook \<Rightarrow> hook" where
  "step now (Render tok) s = render tok now s"
| "step now Unmount s = unmount now s"
| "step now (Transport name arg) s = transport_emit name arg now s"
| "step now (IntervalFire i) s = (if i \<in> set (intervals s) then sendPing now s else s)"
| "step now (TimeoutFire t) s =
     (case find (\<lambda>(i, due, k). i = t) (timeouts s) of
        None \<Rightarrow> s
      | Some (i, due, k) \<Rightarrow> if due \<le> now then onTimeout k (clearTimeout t s) else s)"
| "step now EnsureConnected s = ensureConnected now s"
| "step now SendPing s = sendPing now s"

fun run :: "(int \<times> action) list \<Rightarrow> hook \<Rightarrow> hook" where
  "run [] s = s"
| "run ((now, a) # tr) s = run tr (step now a s)"

subsection \<open>Well-formed states\<close>

text \<open>
  Facts that every reachable state satisfies. The six handlers of the effect are
  registered, once each and under their own event names, exactly while a cleanup function is
  outstanding; every other registration is a one-shot \<open>onConnect\<close> under \<open>connect\<close>; and the
  only interval that can be active is the one \<open>pingIntervalRef\<close> holds.
\<close>

definition is_core :: "handler \<Rightarrow> bool" where
  "is_core h = (case h of HOnConnect k t \<Rightarrow> False | _ \<Rightarrow> True)"

definition coreRegs :: "hook \<Rightarrow> (string \<times> handler) list" where
  "coreRegs s =
     (case socketRef s of None \<Rightarrow> [] | Some sk \<Rightarrow> filter (\<lambda>(n, h). is_core h) (listeners sk))"

definition waitRegsNamed :: "hook \<Rightarrow> bool" where
  "waitRegsNamed s =
     (case socketRef s of None \<Rightarrow> True
      | Some sk \<Rightarrow> list_all (\<lambda>(n, h). is_core h \<or> n = ''connect'') (listeners sk))"

definition heartbeatTracked :: "hook \<Rightarrow> bool" where
  "heartbeatTracked s =
     (intervals s = [] \<or> map Some (intervals s) = [pingIntervalRef s])"

definition wf :: "hook \<Rightarrow> bool" where
  "wf s = (coreRegs s = (if hasCleanup s then core_listeners else []) \<and> waitRegsNamed s
           \<and> heartbeatTracked s)"

text \<open>An effect that returned a cleanup function ran with a token, in a mounted component.\<close>

definition tokenTracked :: "hook \<Rightarrow> bool" where
  "tokenTracked s = (hasCleanup s \<longrightarrow> phase s = Mounted \<and> \<not> no_token (userToken s))"

text \<open>Pending timeouts have distinct handles, all handed out already.\<close>

definition timersFresh :: "hook \<Rightarrow> bool" where
  "timersFresh s =
     (distinct (map fst (timeouts s)) \<and> list_all (\<lambda>(t, due, k). t < nextTimer s) (timeouts s))"

text \<open>
  How the list of promises can change: a new pending promise is created, or a pending one
  is resolved.
\<close>

inductive settles :: "promise list \<Rightarrow> promise list \<Rightarrow> bool" where
  same: "settles ps ps"
| created: "settles ps qs \<Longrightarrow> settles ps (qs @ [Pending])"
| resolved: "settles ps qs \<Longrightarrow> k < length qs \<Longrightarrow> qs ! k = Pending \<Longrightarrow>
     settles ps (qs[k := Resolved b])"

subsection \<open>Predicates of the claims\<close>

text \<open>
  The quality invariant of the specification, with what keeps it across a \<open>pong\<close>: while the
  handlers are registered, a transport that reports connected has been mirrored into
  \<open>isConnected\<close>.
\<close>

definition qualityTracked :: "hook \<Rightarrow> bool" where
  "qualityTracked s =
     ((\<not> isConnected s \<longrightarrow> connectionQuality s = QDisconnected)
      \<and> (hasCleanup s \<and> transportConnected s \<longrightarrow> isConnected s))"

text \<open>
  Traces in which the transport reports \<open>connect_error\<close> only for a connection that is not
  established, that is, while its \<open>connected\<close> flag is false.
\<close>

fun errorsOnlyWhileClosed :: "(int \<times> action) list \<Rightarrow> hook \<Rightarrow> bool" where
  "errorsOnlyWhileClosed [] s = True"
| "errorsOnlyWhileClosed ((now, a) # tr) s =
     ((case a of Transport name arg \<Rightarrow> name = ''connect_error'' \<longrightarrow> \<not> transportConnected s
       | _ \<Rightarrow> True)
      \<and> errorsOnlyWhileClosed tr (step now a s))"

text \<open>
  Traces in which the transport reports \<open>reconnect_attempt\<close> only while its \<open>connected\<close>
  flag is false, and what such traces keep: while the handlers are registered on a connected
  transport, the hook is not marked as connecting.
\<close>

fun attemptsOnlyWhileClosed :: "(int \<times> action) list \<Rightarrow> hook \<Rightarrow> bool" where
  "attemptsOnlyWhileClosed [] s = True"
| "attemptsOnlyWhileClosed ((now, a) # tr) s =
     ((case a of Transport name arg \<Rightarrow> name = ''reconnect_attempt'' \<longrightarrow> \<not> transportConnected s
       | _ \<Rightarrow> True)
      \<and> attemptsOnlyWhileClosed tr (step now a s))"

definition idleWhileOpen :: "hook \<Rightarrow> bool" where
  "idleWhileOpen s = (hasCleanup s \<and> transportConnected s \<longrightarrow> \<not> isConnecting s)"

text \<open>
  A torn-down session: no interval is active, none of the six handlers is registered on
  the transport the hook still holds, and that transport is closed.
\<close>

definition released :: "hook \<Rightarrow> bool" where
  "released s = (intervals s = [] \<and> coreRegs s = [] \<and> \<not> transportConnected s)"

text \<open>
  The registrations that are not among the six handlers: the one-shot listeners of
  \<open>ensureConnected\<close> calls on the transport the hook holds.
\<close>

definition waitRegs :: "hook \<Rightarrow> (string \<times> handler) list" where
  "waitRegs s =
     (case socketRef s of None \<Rightarrow> []
      | Some sk \<Rightarrow> filter (\<lambda>(n, h). \<not> is_core h) (listeners sk))"

subsection \<open>Scenarios\<close>

text \<open>A session is started with a token; the transport then reports \<open>connect\<close> at 50 ms.\<close>

definition session :: "(int \<times> action) list" where
  "session = [(0, Render (Some ''token''))]"

definition connectedSession :: "(int \<times> action) list" where
  "connectedSession = session @ [(50, Transport ''connect'' Undefined)]"

definition someError :: js_value where
  "someError = Obj [(''message'', Str ''websocket error'')]"

text \<open>A \<open>connect_error\<close> on the connected transport, then the reply to the first ping.\<close>

definition pongAfterError :: "(int \<times> action) list" where
  "pongAfterError = connectedSession @
     [(60, Transport ''connect_error'' someError),
      (100, Transport ''pong'' (Obj [(''timestamp'', Num 50)]))]"

text \<open>A drop after a slow reply, a late reply, and a failed reconnection attempt.\<close>

definition dropAndRetry :: "(int \<times> action) list" where
  "dropAndRetry = connectedSession @
     [(700, Transport ''pong'' (Obj [(''timestamp'', Num 50)])),
      (900, Transport ''disconnect'' (Str ''transport close'')),
      (950, Transport ''pong'' (Obj [])),
      (2900, Transport ''reconnect_attempt'' (Num 1)),
      (3000, Transport ''connect_error'' someError)]"

text \<open>The token of a connected session is replaced by another one.\<close>

definition tokenReplaced :: "(int \<times> action) list" where
  "tokenReplaced = connectedSession @ [(60, Render (Some ''other token''))]"

text \<open>A reply 700 ms after the ping, with the payload \<open>null\<close> and with an empty object.\<close>

definition nullPayload :: "(int \<times> action) list" where
  "nullPayload = connectedSession @ [(750, Transport ''pong'' Null)]"

definition emptyPayload :: "(int \<times> action) list" where
  "emptyPayload = connectedSession @ [(750, Transport ''pong'' (Obj []))]"

text \<open>A call of \<open>ensureConnected\<close> at 5 ms, before the transport has connected.\<close>

definition waiting :: "(int \<times> action) list" where
  "waiting = session @ [(5, EnsureConnected)]"

text \<open>The error of a rejected handshake, as the transport hands it to the listeners.\<close>

definition authError :: js_value where
  "authError = Obj [(''message'', Str ''Authentication error'')]"

text \<open>The transport reports \<open>reconnect_attempt\<close> on the connected session.\<close>

definition attemptWhileConnected :: "(int \<times> action) list" where
  "attemptWhileConnected = connectedSession @ [(60, Transport ''reconnect_attempt'' (Num 1))]"

text \<open>
  A reply 700 ms after the ping whose timestamp is an object with a property \<open>toString\<close> of
  its own.
\<close>

definition unreadablePayload :: "(int \<times> action) list" where
  "unreadablePayload = connectedSession @
     [(750, Transport ''pong'' (Obj [(''timestamp'', Obj [(''toString'', Num 1)])]))]"

text \<open>
  The component is unmounted, or its token cleared, at 60 ms, while the call of
  \<open>ensureConnected\<close> made at 5 ms is still waiting.
\<close>

definition unmountedWhileWaiting :: "(int \<times> action) list" where
  "unmountedWhileWaiting = waiting @ [(60, Unmount)]"

definition clearedWhileWaiting :: "(int \<times> action) list" where
  "clearedWhileWaiting = waiting @ [(60, Render None)]"

section \<open>Properties\<close>

subsection \<open>Every reachable state is well formed\<close>

lemmas prim_defs = setOnlineStatus_def clearInterval_def clearTimeout_def resolve_def
  socket_off_def transportConnected_def

lemmas handler_defs = checkConnectionQuality_def sendPing_def handleConnect_def
  handleDisconnect_def handleConnectError_def handleReconnect_def handleReconnectAttempt_def
  handlePong_def onTimeout_def onConnect_def

lemmas run_defs = initial_def render_def unmount_def effect_def cleanup_def no_token_def
  core_listeners_def transport_emit_def socket_disconnect_def listenersFor_def
  ensureConnected_def prim_defs handler_defs Let_def maxReconnectAttempts_def

lemma filter_remove1_other: "\<not> P x \<Longrightarrow> filter P (remove1 x xs) = filter P xs"
  by (induction xs) auto

lemma filter_remove1_same: "P x \<Longrightarrow> filter P (remove1 x xs) = remove1 x (filter P xs)"
  by (induction xs) auto

lemma list_all_remove1: "list_all P xs \<Longrightarrow> list_all P (remove1 x xs)"
  by (induction xs) auto

lemma call_frame:
  assumes "call h arg now s = Inr s'"
  shows "hasCleanup s' = hasCleanup s" and "phase s' = phase s" and "userToken s' = userToken s"
    and "coreRegs s' = coreRegs s" and "waitRegsNamed s \<Longrightarrow> waitRegsNamed s'"
    and "transportConnected s' = transportConnected s"
  using assms
  by (cases h; auto simp: prim_defs handler_defs coreRegs_def waitRegsNamed_def is_core_def Let_def
      filter_remove1_other list_all_remove1
      split: option.splits sum.splits if_splits)+

lemma tracked_removeAll:
  "xs = [] \<or> map Some xs = [Some i] \<Longrightarrow> removeAll i xs = []"
  by (cases xs) auto

lemma call_heartbeat:
  assumes "call h arg now s = Inr s'" and "heartbeatTracked s"
  shows "heartbeatTracked s'"
  using assms
  by (cases h; auto simp: prim_defs handler_defs heartbeatTracked_def Let_def tracked_removeAll
      split: option.splits sum.splits if_splits)

lemma uncaught_frame [simp]:
  "coreRegs (s\<lparr>uncaught := u\<rparr>) = coreRegs s"
  "waitRegsNamed (s\<lparr>uncaught := u\<rparr>) = waitRegsNamed s"
  "heartbeatTracked (s\<lparr>uncaught := u\<rparr>) = heartbeatTracked s"
  "transportConnected (s\<lparr>uncaught := u\<rparr>) = transportConnected s"
  by (simp_all add: coreRegs_def waitRegsNamed_def heartbeatTracked_def transportConnected_def
      split: option.splits)

lemma dispatch_frame:
  "hasCleanup (dispatch hs arg now s) = hasCleanup s
   \<and> phase (dispatch hs arg now s) = phase s
   \<and> userToken (dispatch hs arg now s) = userToken s
   \<and> coreRegs (dispatch hs arg now s) = coreRegs s
   \<and> transportConnected (dispatch hs arg now s) = transportConnected s
   \<and> (waitRegsNamed s \<longrightarrow> waitRegsNamed (dispatch hs arg now s))
   \<and> (heartbeatTracked s \<longrightarrow> heartbeatTracked (dispatch hs arg now s))"
proof (induction hs arbitrary: s)
  case Nil
  show ?case by simp
next
  case (Cons h hs)
  show ?case
  proof (cases "call h arg now s")
    case (Inl e)
    then show ?thesis by simp
  next
    case (Inr s')
    from call_frame [OF Inr] call_heartbeat [OF Inr] Cons.IH [of s'] Inr
    show ?thesis by simp
  qed
qed

lemma flag_frame [simp]:
  "socketRef s = Some sk \<Longrightarrow> coreRegs (s\<lparr>socketRef := Some (sk\<lparr>connected := b\<rparr>)\<rparr>) = coreRegs s"
  "socketRef s = Some sk \<Longrightarrow>
     waitRegsNamed (s\<lparr>socketRef := Some (sk\<lparr>connected := b\<rparr>)\<rparr>) = waitRegsNamed s"
  "heartbeatTracked (s\<lparr>socketRef := x\<rparr>) = heartbeatTracked s"
  by (simp_all add: coreRegs_def waitRegsNamed_def heartbeatTracked_def split: option.splits)

lemma transport_emit_frame:
  "hasCleanup (transport_emit name arg now s) = hasCleanup s
   \<and> phase (transport_emit name arg now s) = phase s
   \<and> userToken (transport_emit name arg now s) = userToken s
   \<and> coreRegs (transport_emit name arg now s) = coreRegs s
   \<and> (waitRegsNamed s \<longrightarrow> waitRegsNamed (transport_emit name arg now s))
   \<and> (heartbeatTracked s \<longrightarrow> heartbeatTracked (transport_emit name arg now s))"
proof (cases "socketRef s")
  case None
  then show ?thesis by (simp add: transport_emit_def)
next
  case (Some sk)
  define sk' where "sk' = (if name = ''connect'' then sk\<lparr>connected := True\<rparr>
                     else if name = ''disconnect'' then sk\<lparr>connected := False\<rparr>
                     else sk)"
  define s1 where "s1 = s\<lparr>socketRef := Some sk'\<rparr>"
  have eq: "transport_emit name arg now s = dispatch (listenersFor name sk') arg now s1"
    using Some by (simp add: transport_emit_def sk'_def s1_def Let_def)
  have "coreRegs s1 = coreRegs s" "waitRegsNamed s1 = waitRegsNamed s"
    "heartbeatTracked s1 = heartbeatTracked s" "hasCleanup s1 = hasCleanup s"
    "phase s1 = phase s" "userToken s1 = userToken s"
    using Some by (auto simp: s1_def sk'_def coreRegs_def waitRegsNamed_def)
  with dispatch_frame [of "listenersFor name sk'" arg now s1] eq show ?thesis by simp
qed

lemma wf_transport_emit: "wf s \<Longrightarrow> wf (transport_emit name arg now s)"
  using transport_emit_frame [of name arg now s] by (simp add: wf_def)

lemma socket_disconnect_frame:
  "hasCleanup (socket_disconnect now s) = hasCleanup s
   \<and> phase (socket_disconnect now s) = phase s
   \<and> userToken (socket_disconnect now s) = userToken s
   \<and> coreRegs (socket_disconnect now s) = coreRegs s
   \<and> (waitRegsNamed s \<longrightarrow> waitRegsNamed (socket_disconnect now s))
   \<and> (heartbeatTracked s \<longrightarrow> heartbeatTracked (socket_disconnect now s))"
  using transport_emit_frame [of "''disconnect''" "Str ''io client disconnect''" now s]
  by (simp add: socket_disconnect_def)

lemma socket_off_frame:
  "hasCleanup (socket_off n h s) = hasCleanup s"
  "phase (socket_off n h s) = phase s"
  "userToken (socket_off n h s) = userToken s"
  "pingIntervalRef (socket_off n h s) = pingIntervalRef s"
  "intervals (socket_off n h s) = intervals s"
  "heartbeatTracked (socket_off n h s) = heartbeatTracked s"
  "waitRegsNamed s \<Longrightarrow> waitRegsNamed (socket_off n h s)"
  "is_core h \<Longrightarrow> coreRegs (socket_off n h s) = remove1 (n, h) (coreRegs s)"
  by (auto simp: socket_off_def heartbeatTracked_def waitRegsNamed_def coreRegs_def
      list_all_remove1 filter_remove1_same split: option.splits)

lemma clear_ref_frame:
  "hasCleanup (case pingIntervalRef s of Some i \<Rightarrow> clearInterval i s | None \<Rightarrow> s) = hasCleanup s"
  "phase (case pingIntervalRef s of Some i \<Rightarrow> clearInterval i s | None \<Rightarrow> s) = phase s"
  "userToken (case pingIntervalRef s of Some i \<Rightarrow> clearInterval i s | None \<Rightarrow> s) = userToken s"
  "coreRegs (case pingIntervalRef s of Some i \<Rightarrow> clearInterval i s | None \<Rightarrow> s) = coreRegs s"
  "waitRegsNamed (case pingIntervalRef s of Some i \<Rightarrow> clearInterval i s | None \<Rightarrow> s)
     = waitRegsNamed s"
  "heartbeatTracked s \<Longrightarrow>
     intervals (case pingIntervalRef s of Some i \<Rightarrow> clearInterval i s | None \<Rightarrow> s) = []"
  "pingIntervalRef (case pingIntervalRef s of Some i \<Rightarrow> clearInterval i s | None \<Rightarrow> s)
     = pingIntervalRef s"
  by (auto simp: clearInterval_def coreRegs_def waitRegsNamed_def heartbeatTracked_def
      split: option.splits)

lemma heartbeatTracked_empty: "intervals s = [] \<Longrightarrow> heartbeatTracked s"
  by (simp add: heartbeatTracked_def split: option.splits)

lemma cleanup_frame:
  assumes "wf s"
  shows "hasCleanup (cleanup now s) = hasCleanup s"
    and "phase (cleanup now s) = phase s"
    and "userToken (cleanup now s) = userToken s"
    and "coreRegs (cleanup now s) = []"
    and "waitRegsNamed (cleanup now s)"
    and "heartbeatTracked (cleanup now s)"
proof -
  define s1 where "s1 = (case pingIntervalRef s of Some i \<Rightarrow> clearInterval i s | None \<Rightarrow> s)"
  define s7 where "s7 = socket_off ''pong'' HPong (socket_off ''reconnect_attempt'' HReconnectAttempt
    (socket_off ''reconnect'' HReconnect (socket_off ''connect_error'' HConnectError
    (socket_off ''disconnect'' HDisconnect (socket_off ''connect'' HConnect s1)))))"
  have c: "cleanup now s = socket_disconnect now s7"
    by (simp add: cleanup_def s7_def s1_def Let_def)
  from assms have hb: "heartbeatTracked s" and wn: "waitRegsNamed s"
    and cr: "coreRegs s = (if hasCleanup s then core_listeners else [])"
    by (simp_all add: wf_def)
  have i1: "intervals s1 = []" using clear_ref_frame(6) [OF hb] by (simp add: s1_def)
  have "intervals s7 = []" using i1 by (simp add: s7_def socket_off_frame)
  then have hb7: "heartbeatTracked s7" by (rule heartbeatTracked_empty)
  have wn7: "waitRegsNamed s7"
    using wn by (simp add: s7_def s1_def socket_off_frame clear_ref_frame)
  have cr7: "coreRegs s7 = []"
    using cr by (simp add: s7_def s1_def socket_off_frame clear_ref_frame is_core_def
        core_listeners_def)
  have fr7: "hasCleanup s7 = hasCleanup s" "phase s7 = phase s" "userToken s7 = userToken s"
    by (simp_all add: s7_def s1_def socket_off_frame clear_ref_frame)
  from socket_disconnect_frame [of now s7] hb7 wn7 cr7 fr7 c
  show "hasCleanup (cleanup now s) = hasCleanup s" "phase (cleanup now s) = phase s"
    "userToken (cleanup now s) = userToken s" "coreRegs (cleanup now s) = []"
    "waitRegsNamed (cleanup now s)" "heartbeatTracked (cleanup now s)"
    by simp_all
qed

lemma wf_effect:
  assumes "heartbeatTracked s"
  shows "wf (effect tok now s)"
proof (cases "no_token tok")
  case True
  have "heartbeatTracked (socket_disconnect now s)"
    using socket_disconnect_frame [of now s] assms by simp
  then show ?thesis using True assms
    by (auto simp: effect_def wf_def coreRegs_def waitRegsNamed_def heartbeatTracked_def
        setOnlineStatus_def Let_def split: option.splits)
next
  case False
  then show ?thesis using assms
    by (auto simp: effect_def wf_def coreRegs_def waitRegsNamed_def heartbeatTracked_def
        core_listeners_def is_core_def Let_def split: option.splits)
qed

lemma wf_cong:
  "hasCleanup s' = hasCleanup s \<Longrightarrow> socketRef s' = socketRef s \<Longrightarrow> intervals s' = intervals s
   \<Longrightarrow> pingIntervalRef s' = pingIntervalRef s \<Longrightarrow> wf s' = wf s"
  by (simp add: wf_def coreRegs_def waitRegsNamed_def heartbeatTracked_def)

lemma wf_bookkeeping [simp]:
  "wf (s\<lparr>userToken := x\<rparr>) = wf s"
  "wf (s\<lparr>phase := p\<rparr>) = wf s"
  by (rule wf_cong; simp)+

lemma wf_render: "wf s \<Longrightarrow> wf (render tok now s)"
proof -
  assume w: "wf s"
  then have h: "heartbeatTracked s" by (simp add: wf_def)
  have c: "heartbeatTracked (cleanup now s)" using cleanup_frame(6) [OF w] .
  note e1 = wf_effect [OF h, of tok now] and e2 = wf_effect [OF c, of tok now]
  show ?thesis
  proof (cases "phase s")
    case Fresh
    then show ?thesis using e1 by (simp add: render_def)
  next
    case Mounted
    then show ?thesis using w e1 e2 by (cases "tok = userToken s") (simp_all add: render_def)
  next
    case Unmounted
    then show ?thesis using w by (simp add: render_def)
  qed
qed

lemma wf_unmount: "wf s \<Longrightarrow> wf (unmount now s)"
proof -
  assume w: "wf s"
  have a: "wf ((cleanup now s)\<lparr>phase := Unmounted, hasCleanup := False\<rparr>)"
    using cleanup_frame [OF w, of now]
    by (simp add: wf_def coreRegs_def waitRegsNamed_def heartbeatTracked_def
        split: option.splits)
  have b: "\<not> hasCleanup s \<Longrightarrow> wf (s\<lparr>phase := Unmounted, hasCleanup := False\<rparr>)"
    using w wf_cong [of "s\<lparr>phase := Unmounted, hasCleanup := False\<rparr>" s] by simp
  show ?thesis
  proof (cases "phase s")
    case Mounted
    then show ?thesis using a b by (cases "hasCleanup s") (simp_all add: unmount_def)
  qed (use w in \<open>simp_all add: unmount_def\<close>)
qed

lemma wf_sendPing: "wf s \<Longrightarrow> wf (sendPing now s)"
  using wf_cong [of "sendPing now s" s] by (simp add: sendPing_def)

lemma wf_ensureConnected: "wf s \<Longrightarrow> wf (ensureConnected now s)"
  by (auto simp: ensureConnected_def resolve_def transportConnected_def wf_def coreRegs_def
      waitRegsNamed_def heartbeatTracked_def is_core_def Let_def split: option.splits)

lemma wf_timeout: "wf s \<Longrightarrow> wf (onTimeout k (clearTimeout t s))"
  using wf_cong [of "onTimeout k (clearTimeout t s)" s]
  by (simp add: onTimeout_def clearTimeout_def resolve_def)

lemma wf_step: "wf s \<Longrightarrow> wf (step now a s)"
  by (cases a)
    (auto simp: wf_render wf_unmount wf_transport_emit wf_sendPing wf_ensureConnected wf_timeout
      split: option.splits)

lemma wf_initial: "wf initial"
  by (simp add: wf_def initial_def coreRegs_def waitRegsNamed_def heartbeatTracked_def)

lemma wf_run: "wf s \<Longrightarrow> wf (run tr s)"
  by (induction tr arbitrary: s) (auto simp: wf_step)

lemma no_session_no_handlers:
  assumes "wf s" and "socketRef s = None"
  shows "\<not> hasCleanup s"
  using assms by (auto simp: wf_def coreRegs_def core_listeners_def)

lemma effect_frame:
  "hasCleanup (effect tok now s) = (\<not> no_token tok)"
  "phase (effect tok now s) = phase s"
  "userToken (effect tok now s) = userToken s"
  using socket_disconnect_frame [of now s]
  by (simp_all add: effect_def setOnlineStatus_def Let_def split: option.splits)

lemma tokenTracked_step:
  assumes "wf s" and "tokenTracked s"
  shows "tokenTracked (step now a s)"
proof (cases a)
  case (Render tok)
  show ?thesis using Render assms(2) cleanup_frame(1,2,3) [OF assms(1), of now]
    by (cases "phase s"; cases "tok = userToken s")
       (simp_all add: render_def tokenTracked_def effect_frame)
next
  case Unmount
  then show ?thesis using assms(2)
    by (cases "phase s") (simp_all add: unmount_def tokenTracked_def)
next
  case (Transport name arg)
  then show ?thesis using assms(2) transport_emit_frame [of name arg now s]
    by (simp add: tokenTracked_def)
next
  case (IntervalFire i)
  then show ?thesis using assms(2) by (simp add: tokenTracked_def sendPing_def)
next
  case (TimeoutFire t)
  then show ?thesis using assms(2)
    by (auto simp: tokenTracked_def onTimeout_def clearTimeout_def resolve_def
        split: option.splits)
next
  case EnsureConnected
  then show ?thesis using assms(2)
    by (auto simp: tokenTracked_def ensureConnected_def resolve_def Let_def
        split: option.splits)
next
  case SendPing
  then show ?thesis using assms(2) by (simp add: tokenTracked_def sendPing_def)
qed

lemma reachable:
  "wf (run tr initial) \<and> tokenTracked (run tr initial)"
proof -
  have "wf s \<Longrightarrow> tokenTracked s \<Longrightarrow> wf (run tr s) \<and> tokenTracked (run tr s)" for s
  proof (induction tr arbitrary: s)
    case Nil
    then show ?case by simp
  next
    case (Cons x tr)
    obtain now a where x: "x = (now, a)" by (cases x)
    show ?case
      using Cons.IH [OF wf_step [OF Cons.prems(1)] tokenTracked_step [OF Cons.prems]] x by simp
  qed
  moreover have "tokenTracked initial" by (simp add: tokenTracked_def initial_def)
  ultimately show ?thesis using wf_initial by blast
qed

subsection \<open>What an event runs in a well-formed state\<close>

lemma filter_name_core:
  "list_all (\<lambda>(n, h). is_core h \<or> n = ''connect'') xs \<Longrightarrow> name \<noteq> ''connect'' \<Longrightarrow>
   filter (\<lambda>(n, h). n = name) xs = filter (\<lambda>(n, h). n = name) (filter (\<lambda>(n, h). is_core h) xs)"
  by (induction xs) auto

lemma listenersFor_named:
  assumes "waitRegsNamed s" and "socketRef s = Some sk" and "name \<noteq> ''connect''"
  shows "listenersFor name sk = map snd (filter (\<lambda>(n, h). n = name) (coreRegs s))"
  using assms filter_name_core [of "listeners sk" name]
  by (simp add: listenersFor_def waitRegsNamed_def coreRegs_def)

lemma filter_core_named:
  "filter is_core (map snd (filter (\<lambda>(n, h). n = name) xs))
     = map snd (filter (\<lambda>(n, h). n = name) (filter (\<lambda>(n, h). is_core h) xs))"
  by (induction xs) auto

lemma listenersFor_core:
  "socketRef s = Some sk \<Longrightarrow>
   filter is_core (listenersFor name sk) = map snd (filter (\<lambda>(n, h). n = name) (coreRegs s))"
  by (simp add: listenersFor_def coreRegs_def filter_core_named)

lemma same_socket [simp]: "socketRef s = Some sk \<Longrightarrow> s\<lparr>socketRef := Some sk\<rparr> = s"
  by (cases s) simp

lemma no_socket [simp]: "socketRef s = None \<Longrightarrow> s\<lparr>socketRef := None\<rparr> = s"
  by (cases s) simp

lemma emit_other:
  assumes "wf s" and "socketRef s = Some sk"
    and "name \<noteq> ''connect''" and "name \<noteq> ''disconnect''"
  shows "transport_emit name arg now s
     = dispatch (map snd (filter (\<lambda>(n, h). n = name)
          (if hasCleanup s then core_listeners else []))) arg now s"
proof -
  from assms(1) have wn: "waitRegsNamed s"
    and cr: "coreRegs s = (if hasCleanup s then core_listeners else [])"
    by (simp_all add: wf_def)
  show ?thesis
    using assms(2-4) listenersFor_named [OF wn assms(2,3)] cr
    by (simp add: transport_emit_def)
qed



lemma emit_pong_any:
  assumes "wf s"
  shows "transport_emit ''pong'' arg now s
           = (if hasCleanup s then dispatch [HPong] arg now s else s)"
proof (cases "socketRef s")
  case None
  then show ?thesis using no_session_no_handlers [OF assms] by (simp add: transport_emit_def)
next
  case (Some sk)
  show ?thesis using emit_other [OF assms Some, of "''pong''" arg now]
    by (simp add: core_listeners_def)
qed

lemma emit_pong:
  assumes "wf s" and "property d ''timestamp'' = Inr ts" and "truthy ts \<longrightarrow> convertible ts"
  shows "transport_emit ''pong'' d now s
     = (if hasCleanup s then checkConnectionQuality now s else s)"
  using emit_pong_any [OF assms(1), of d now] assms(2,3) by (auto simp: handlePong_def)

lemma emit_named:
  assumes "wf s"
  shows "transport_emit ''connect_error'' arg now s
           = (if hasCleanup s then dispatch [HConnectError] arg now s else s)"
    and "transport_emit ''reconnect'' arg now s
           = (if hasCleanup s then dispatch [HReconnect] arg now s else s)"
    and "transport_emit ''reconnect_attempt'' arg now s
           = (if hasCleanup s then dispatch [HReconnectAttempt] arg now s else s)"
    and "name \<noteq> ''connect'' \<Longrightarrow> name \<noteq> ''disconnect'' \<Longrightarrow> name \<noteq> ''connect_error'' \<Longrightarrow>
         name \<noteq> ''reconnect'' \<Longrightarrow> name \<noteq> ''reconnect_attempt'' \<Longrightarrow> name \<noteq> ''pong'' \<Longrightarrow>
         transport_emit name arg now s = s"
proof -
  have n: "socketRef s = None \<Longrightarrow> \<not> hasCleanup s \<and> transport_emit name arg now s = s" for name
    using no_session_no_handlers [OF assms] by (simp add: transport_emit_def)
  show "transport_emit ''connect_error'' arg now s
           = (if hasCleanup s then dispatch [HConnectError] arg now s else s)"
  proof (cases "socketRef s")
    case None then show ?thesis using n by simp
  next
    case (Some sk)
    show ?thesis using emit_other [OF assms Some, of "''connect_error''" arg now]
      by (simp add: core_listeners_def)
  qed
  show "transport_emit ''reconnect'' arg now s
           = (if hasCleanup s then dispatch [HReconnect] arg now s else s)"
  proof (cases "socketRef s")
    case None then show ?thesis using n by simp
  next
    case (Some sk)
    show ?thesis using emit_other [OF assms Some, of "''reconnect''" arg now]
      by (simp add: core_listeners_def)
  qed
  show "transport_emit ''reconnect_attempt'' arg now s
           = (if hasCleanup s then dispatch [HReconnectAttempt] arg now s else s)"
  proof (cases "socketRef s")
    case None then show ?thesis using n by simp
  next
    case (Some sk)
    show ?thesis using emit_other [OF assms Some, of "''reconnect_attempt''" arg now]
      by (simp add: core_listeners_def)
  qed
  show "transport_emit name arg now s = s"
    if "name \<noteq> ''connect''" "name \<noteq> ''disconnect''" "name \<noteq> ''connect_error''"
       "name \<noteq> ''reconnect''" "name \<noteq> ''reconnect_attempt''" "name \<noteq> ''pong''"
  proof (cases "socketRef s")
    case None then show ?thesis using n by simp
  next
    case (Some sk)
    show ?thesis using emit_other [OF assms Some that(1,2), of arg now] that
      by (simp add: core_listeners_def)
  qed
qed

lemma handleConnect_fields:
  "isConnected (handleConnect now s) = True"
  "isConnecting (handleConnect now s) = False"
  "connectionQuality (handleConnect now s) = Good"
  "reconnectAttempts (handleConnect now s) = 0"
  "onlineStatus (handleConnect now s) = onlineStatus s @ [True]"
  "socketRef (handleConnect now s) = socketRef s"
  "hasCleanup (handleConnect now s) = hasCleanup s"
  "promises (handleConnect now s) = promises s"
  "timeouts (handleConnect now s) = timeouts s"
  by (simp_all add: handleConnect_def sendPing_def setOnlineStatus_def clearInterval_def Let_def
      split: option.splits)

lemma onConnect_fields:
  "isConnected (onConnect k t s) = isConnected s"
  "connectionQuality (onConnect k t s) = connectionQuality s"
  "reconnectAttempts (onConnect k t s) = reconnectAttempts s"
  "onlineStatus (onConnect k t s) = onlineStatus s"
  "hasCleanup (onConnect k t s) = hasCleanup s"
  "intervals (onConnect k t s) = intervals s"
  "pingIntervalRef (onConnect k t s) = pingIntervalRef s"
  by (simp_all add: onConnect_def socket_off_def resolve_def clearTimeout_def
      split: option.splits)

lemma dispatch_connect:
  assumes "\<forall>h\<in>set hs. h = HConnect \<or> \<not> is_core h"
  shows "isConnected (dispatch hs arg now s) = (isConnected s \<or> HConnect \<in> set hs)
    \<and> onlineStatus (dispatch hs arg now s) = onlineStatus s @ map (\<lambda>h. True) (filter is_core hs)
    \<and> reconnectAttempts (dispatch hs arg now s)
        = (if HConnect \<in> set hs then 0 else reconnectAttempts s)
    \<and> ((\<not> isConnected s \<longrightarrow> connectionQuality s = QDisconnected) \<longrightarrow>
        (\<not> isConnected (dispatch hs arg now s) \<longrightarrow>
           connectionQuality (dispatch hs arg now s) = QDisconnected))"
  using assms
proof (induction hs arbitrary: s)
  case Nil
  show ?case by simp
next
  case (Cons h hs)
  then have rest: "\<forall>h\<in>set hs. h = HConnect \<or> \<not> is_core h" by simp
  show ?case
  proof (cases "h = HConnect")
    case True
    show ?thesis
      using Cons.IH [OF rest, of "handleConnect now s"] True
      by (simp add: handleConnect_fields is_core_def)
  next
    case False
    with Cons.prems obtain k t where h: "h = HOnConnect k t"
      by (cases h) (auto simp: is_core_def)
    show ?thesis
      using Cons.IH [OF rest, of "onConnect k t s"] h
      by (simp add: onConnect_fields is_core_def)
  qed
qed

lemma connect_listeners:
  assumes "wf s" and "socketRef s = Some sk"
  shows "filter is_core (listenersFor ''connect'' sk) = (if hasCleanup s then [HConnect] else [])"
    and "\<forall>h\<in>set (listenersFor ''connect'' sk). h = HConnect \<or> \<not> is_core h"
    and "HConnect \<in> set (listenersFor ''connect'' sk) \<longleftrightarrow> hasCleanup s"
proof -
  from assms(1) have cr: "coreRegs s = (if hasCleanup s then core_listeners else [])"
    by (simp add: wf_def)
  show f: "filter is_core (listenersFor ''connect'' sk) = (if hasCleanup s then [HConnect] else [])"
    using listenersFor_core [OF assms(2), of "''connect''"] cr
    by (simp add: core_listeners_def)
  have m: "\<And>h. h \<in> set (listenersFor ''connect'' sk) \<Longrightarrow> is_core h \<Longrightarrow>
      h \<in> set (filter is_core (listenersFor ''connect'' sk))" by simp
  show "\<forall>h\<in>set (listenersFor ''connect'' sk). h = HConnect \<or> \<not> is_core h"
  proof (intro ballI)
    fix h assume "h \<in> set (listenersFor ''connect'' sk)"
    then show "h = HConnect \<or> \<not> is_core h"
      using m [of h] f by (cases "hasCleanup s"; cases "is_core h") auto
  qed
  have "HConnect \<in> set (listenersFor ''connect'' sk)
      \<longleftrightarrow> HConnect \<in> set (filter is_core (listenersFor ''connect'' sk))"
    by (simp add: is_core_def)
  then show "HConnect \<in> set (listenersFor ''connect'' sk) \<longleftrightarrow> hasCleanup s"
    using f by simp
qed

lemma emit_connect:
  assumes "wf s" and "socketRef s = Some sk"
  shows "isConnected (transport_emit ''connect'' arg now s) = (isConnected s \<or> hasCleanup s)"
    and "onlineStatus (transport_emit ''connect'' arg now s)
          = onlineStatus s @ (if hasCleanup s then [True] else [])"
    and "reconnectAttempts (transport_emit ''connect'' arg now s)
          = (if hasCleanup s then 0 else reconnectAttempts s)"
    and "(\<not> isConnected s \<longrightarrow> connectionQuality s = QDisconnected) \<Longrightarrow>
         \<not> isConnected (transport_emit ''connect'' arg now s) \<Longrightarrow>
         connectionQuality (transport_emit ''connect'' arg now s) = QDisconnected"
proof -
  define s1 where "s1 = s\<lparr>socketRef := Some (sk\<lparr>connected := True\<rparr>)\<rparr>"
  define hs where "hs = listenersFor ''connect'' sk"
  have e: "transport_emit ''connect'' arg now s = dispatch hs arg now s1"
    using assms(2) by (simp add: transport_emit_def s1_def hs_def listenersFor_def)
  note c = connect_listeners [OF assms, folded hs_def]
  note d = dispatch_connect [OF c(2), of arg now s1]
  have s1: "isConnected s1 = isConnected s" "onlineStatus s1 = onlineStatus s"
    "reconnectAttempts s1 = reconnectAttempts s" "connectionQuality s1 = connectionQuality s"
    by (simp_all add: s1_def)
  show "isConnected (transport_emit ''connect'' arg now s) = (isConnected s \<or> hasCleanup s)"
    using d c(3) e s1 by simp
  show "onlineStatus (transport_emit ''connect'' arg now s)
          = onlineStatus s @ (if hasCleanup s then [True] else [])"
    using d c(1) e s1 by simp
  show "reconnectAttempts (transport_emit ''connect'' arg now s)
          = (if hasCleanup s then 0 else reconnectAttempts s)"
    using d c(3) e s1 by simp
  show "(\<not> isConnected s \<longrightarrow> connectionQuality s = QDisconnected) \<Longrightarrow>
         \<not> isConnected (transport_emit ''connect'' arg now s) \<Longrightarrow>
         connectionQuality (transport_emit ''connect'' arg now s) = QDisconnected"
    using d e s1 by simp
qed

lemma emit_disconnect:
  assumes "wf s" and "socketRef s = Some sk"
  shows "transport_emit ''disconnect'' arg now s
     = (if hasCleanup s
        then dispatch [HDisconnect] arg now (s\<lparr>socketRef := Some (sk\<lparr>connected := False\<rparr>)\<rparr>)
        else s\<lparr>socketRef := Some (sk\<lparr>connected := False\<rparr>)\<rparr>)"
proof -
  define s1 where "s1 = s\<lparr>socketRef := Some (sk\<lparr>connected := False\<rparr>)\<rparr>"
  from assms(1) have wn: "waitRegsNamed s"
    and cr: "coreRegs s = (if hasCleanup s then core_listeners else [])"
    by (simp_all add: wf_def)
  have l: "listenersFor ''disconnect'' (sk\<lparr>connected := False\<rparr>) = listenersFor ''disconnect'' sk"
    by (simp add: listenersFor_def)
  show ?thesis
    using assms(2) listenersFor_named [OF wn assms(2), of "''disconnect''"] cr l
    by (simp add: transport_emit_def core_listeners_def)
qed

lemma socket_disconnect_quiet:
  assumes "waitRegsNamed s" and "coreRegs s = []"
  shows "socket_disconnect now s
     = s\<lparr>socketRef := map_option (\<lambda>sk. sk\<lparr>connected := False\<rparr>) (socketRef s)\<rparr>"
proof (cases "socketRef s")
  case None
  then show ?thesis by (simp add: socket_disconnect_def transportConnected_def)
next
  case (Some sk)
  have l: "listenersFor ''disconnect'' (sk\<lparr>connected := False\<rparr>) = []"
    using listenersFor_named [OF assms(1) Some, of "''disconnect''"] assms(2)
    by (simp add: listenersFor_def)
  have "\<not> connected sk \<Longrightarrow> sk\<lparr>connected := False\<rparr> = sk" by (cases sk) simp
  then show ?thesis using Some l
    by (simp add: socket_disconnect_def transportConnected_def transport_emit_def)
qed

lemma cleanup_explicit:
  assumes "wf s"
  defines "s7 \<equiv> socket_off ''pong'' HPong (socket_off ''reconnect_attempt'' HReconnectAttempt
    (socket_off ''reconnect'' HReconnect (socket_off ''connect_error'' HConnectError
    (socket_off ''disconnect'' HDisconnect (socket_off ''connect'' HConnect
      (case pingIntervalRef s of Some i \<Rightarrow> clearInterval i s | None \<Rightarrow> s))))))"
  shows "cleanup now s
     = s7\<lparr>socketRef := map_option (\<lambda>sk. sk\<lparr>connected := False\<rparr>) (socketRef s7)\<rparr>"
proof -
  define s1 where "s1 = (case pingIntervalRef s of Some i \<Rightarrow> clearInterval i s | None \<Rightarrow> s)"
  have c: "cleanup now s = socket_disconnect now s7"
    by (simp add: cleanup_def s7_def Let_def)
  from assms(1) have wn: "waitRegsNamed s"
    and cr: "coreRegs s = (if hasCleanup s then core_listeners else [])"
    by (simp_all add: wf_def)
  have wn7: "waitRegsNamed s7"
    using wn by (simp add: s7_def socket_off_frame clear_ref_frame)
  have cr7: "coreRegs s7 = []"
    using cr by (simp add: s7_def socket_off_frame clear_ref_frame is_core_def
        core_listeners_def)
  show ?thesis
  proof (cases "socketRef s7")
    case None
    then show ?thesis using c by (simp add: socket_disconnect_def transportConnected_def)
  next
    case (Some sk7)
    have l: "listenersFor ''disconnect'' (sk7\<lparr>connected := False\<rparr>) = []"
      using listenersFor_named [OF wn7 Some, of "''disconnect''"] cr7
      by (simp add: listenersFor_def)
    have "\<not> connected sk7 \<Longrightarrow> sk7\<lparr>connected := False\<rparr> = sk7" by (cases sk7) simp
    then show ?thesis using c Some l
      by (simp add: socket_disconnect_def transportConnected_def transport_emit_def)
  qed
qed

lemma cleanup_fields:
  assumes "wf s"
  shows "isConnected (cleanup now s) = isConnected s"
    and "isConnecting (cleanup now s) = isConnecting s"
    and "connectionQuality (cleanup now s) = connectionQuality s"
    and "reconnectAttempts (cleanup now s) = reconnectAttempts s"
    and "onlineStatus (cleanup now s) = onlineStatus s"
    and "promises (cleanup now s) = promises s"
    and "timeouts (cleanup now s) = timeouts s"
    and "nextTimer (cleanup now s) = nextTimer s"
    and "pingIntervalRef (cleanup now s) = pingIntervalRef s"
    and "\<not> transportConnected (cleanup now s)"
    and "intervals (cleanup now s) = []"
    and "socketRef (cleanup now s) = None \<longleftrightarrow> socketRef s = None"
proof -
  note e = cleanup_explicit [OF assms, of now]
  from assms have hb: "heartbeatTracked s" by (simp add: wf_def)
  show "intervals (cleanup now s) = []"
    using clear_ref_frame(6) [OF hb] by (simp add: e socket_off_frame)
  show "isConnected (cleanup now s) = isConnected s"
    "isConnecting (cleanup now s) = isConnecting s"
    "connectionQuality (cleanup now s) = connectionQuality s"
    "reconnectAttempts (cleanup now s) = reconnectAttempts s"
    "onlineStatus (cleanup now s) = onlineStatus s"
    "promises (cleanup now s) = promises s"
    "timeouts (cleanup now s) = timeouts s"
    "nextTimer (cleanup now s) = nextTimer s"
    "pingIntervalRef (cleanup now s) = pingIntervalRef s"
    "\<not> transportConnected (cleanup now s)"
    "socketRef (cleanup now s) = None \<longleftrightarrow> socketRef s = None"
    by (simp_all add: e socket_off_def clearInterval_def transportConnected_def
        split: option.splits)
qed

lemma effect_quiet:
  assumes "waitRegsNamed s" and "coreRegs s = []"
  shows "isConnected (effect tok now s) = (\<not> no_token tok \<and> isConnected s)"
    and "onlineStatus (effect tok now s)
          = onlineStatus s @ (if no_token tok then [False] else [])"
    and "intervals (effect tok now s) = intervals s"
    and "no_token tok \<Longrightarrow> socketRef (effect tok now s) = None"
  using socket_disconnect_quiet [OF assms, of now]
  by (simp_all add: effect_def setOnlineStatus_def Let_def split: option.splits)

subsection \<open>The quality invariant\<close>

lemma qualityTracked_cong:
  "isConnected s' = isConnected s \<Longrightarrow> connectionQuality s' = connectionQuality s \<Longrightarrow>
   hasCleanup s' = hasCleanup s \<Longrightarrow> transportConnected s' = transportConnected s \<Longrightarrow>
   qualityTracked s' = qualityTracked s"
  by (simp add: qualityTracked_def)

lemma qualityTracked_render:
  assumes "wf s" and "qualityTracked s"
  shows "qualityTracked (render tok now s)"
proof -
  note cf = cleanup_fields [OF assms(1), of now]
  have e: "\<And>s0. \<not> isConnected s0 \<longrightarrow> connectionQuality s0 = QDisconnected \<Longrightarrow>
      qualityTracked (effect tok now s0)"
    by (simp add: effect_def qualityTracked_def setOnlineStatus_def transportConnected_def
        Let_def split: option.splits)
  have q: "\<not> isConnected s \<longrightarrow> connectionQuality s = QDisconnected"
    using assms(2) by (simp add: qualityTracked_def)
  then have qc: "\<not> isConnected (cleanup now s) \<longrightarrow> connectionQuality (cleanup now s) = QDisconnected"
    by (simp add: cf)
  have b: "\<And>s0 x p. qualityTracked (s0\<lparr>userToken := x\<rparr>) = qualityTracked s0"
    "\<And>s0 x p. qualityTracked (s0\<lparr>userToken := x, phase := p\<rparr>) = qualityTracked s0"
    by (simp_all add: qualityTracked_def transportConnected_def)
  show ?thesis
    using assms(2) e [OF q] e [OF qc]
    by (cases "phase s"; cases "tok = userToken s"; cases "hasCleanup s")
       (simp_all add: render_def b)
qed

lemma qualityTracked_unmount:
  assumes "wf s" and "qualityTracked s"
  shows "qualityTracked (unmount now s)"
  using assms(2) cleanup_fields [OF assms(1), of now]
  by (cases "phase s"; cases "hasCleanup s")
     (simp_all add: unmount_def qualityTracked_def transportConnected_def)

lemma qualityTracked_emit:
  assumes "wf s" and "qualityTracked s"
    and "name = ''connect_error'' \<longrightarrow> \<not> transportConnected s"
  shows "qualityTracked (transport_emit name arg now s)"
proof (cases "socketRef s")
  case None
  then show ?thesis using assms(2) by (simp add: transport_emit_def)
next
  case (Some sk)
  note fr = transport_emit_frame [of name arg now s]
  have hc: "hasCleanup (transport_emit name arg now s) = hasCleanup s" using fr by simp
  consider (c) "name = ''connect''" | (d) "name = ''disconnect''"
    | (o) "name \<noteq> ''connect''" "name \<noteq> ''disconnect''" by blast
  then show ?thesis
  proof cases
    case c
    from assms(2) have q: "\<not> isConnected s \<longrightarrow> connectionQuality s = QDisconnected"
      by (simp add: qualityTracked_def)
    show ?thesis
      using emit_connect(1) [OF assms(1) Some, of arg now]
        emit_connect(4) [OF assms(1) Some q, of arg now] hc c
      by (auto simp: qualityTracked_def)
  next
    case d
    show ?thesis
      using emit_disconnect [OF assms(1) Some, of arg now] assms(2) d
      by (auto simp: qualityTracked_def handleDisconnect_def setOnlineStatus_def clearInterval_def
          transportConnected_def maxReconnectAttempts_def Let_def
          split: option.splits if_splits)
  next
    case o
    note e = emit_other [OF assms(1) Some o, of arg now]
    from assms(2) have q1: "\<not> isConnected s \<longrightarrow> connectionQuality s = QDisconnected"
      and q2: "hasCleanup s \<and> transportConnected s \<longrightarrow> isConnected s"
      by (simp_all add: qualityTracked_def)
    consider (e) "name = ''connect_error''" | (r) "name = ''reconnect''"
      | (a) "name = ''reconnect_attempt''" | (p) "name = ''pong''"
      | (n) "name \<noteq> ''connect_error''" "name \<noteq> ''reconnect''" "name \<noteq> ''reconnect_attempt''"
            "name \<noteq> ''pong''" by blast
    then show ?thesis
    proof cases
      case e
      have "transport_emit name arg now s
          = (if hasCleanup s then dispatch [HConnectError] arg now s else s)"
        using emit_other [OF assms(1) Some o, of arg now] e by (simp add: core_listeners_def)
      then show ?thesis using assms(2,3) e
        by (auto simp: qualityTracked_def transportConnected_def handleConnectError_def
            setOnlineStatus_def split: sum.splits if_splits)
    next
      case r
      have "transport_emit name arg now s
          = (if hasCleanup s then dispatch [HReconnect] arg now s else s)"
        using emit_other [OF assms(1) Some o, of arg now] r by (simp add: core_listeners_def)
      then show ?thesis using assms(2)
        by (auto simp: qualityTracked_def transportConnected_def handleReconnect_def
            setOnlineStatus_def)
    next
      case a
      have "transport_emit name arg now s
          = (if hasCleanup s then dispatch [HReconnectAttempt] arg now s else s)"
        using emit_other [OF assms(1) Some o, of arg now] a by (simp add: core_listeners_def)
      then show ?thesis using assms(2)
        by (auto simp: qualityTracked_def transportConnected_def handleReconnectAttempt_def)
    next
      case p
      have "transport_emit name arg now s
          = (if hasCleanup s then dispatch [HPong] arg now s else s)"
        using emit_other [OF assms(1) Some o, of arg now] p by (simp add: core_listeners_def)
      then show ?thesis using assms(2)
        by (auto simp: qualityTracked_def transportConnected_def handlePong_def
            checkConnectionQuality_def Let_def split: sum.splits if_splits)
    next
      case n
      have "transport_emit name arg now s = s"
        using emit_other [OF assms(1) Some o, of arg now] n o by (simp add: core_listeners_def)
      then show ?thesis using assms(2) by simp
    qed
  qed
qed

lemma qualityTracked_step:
  assumes "wf s" and "qualityTracked s"
    and "case a of Transport name arg \<Rightarrow> name = ''connect_error'' \<longrightarrow> \<not> transportConnected s
         | _ \<Rightarrow> True"
  shows "qualityTracked (step now a s)"
proof (cases a)
  case (Render tok)
  then show ?thesis using qualityTracked_render [OF assms(1,2)] by simp
next
  case Unmount
  then show ?thesis using qualityTracked_unmount [OF assms(1,2)] by simp
next
  case (Transport name arg)
  then show ?thesis using qualityTracked_emit [OF assms(1,2)] assms(3) by simp
next
  case (IntervalFire i)
  then show ?thesis using assms(2)
    by (simp add: qualityTracked_def sendPing_def transportConnected_def)
next
  case (TimeoutFire t)
  then show ?thesis using assms(2)
    by (auto simp: qualityTracked_def onTimeout_def clearTimeout_def resolve_def
        transportConnected_def split: option.splits)
next
  case EnsureConnected
  then show ?thesis using assms(2)
    by (auto simp: qualityTracked_def ensureConnected_def resolve_def transportConnected_def
        Let_def split: option.splits)
next
  case SendPing
  then show ?thesis using assms(2)
    by (simp add: qualityTracked_def sendPing_def transportConnected_def)
qed

lemma qualityTracked_run:
  "wf s \<Longrightarrow> qualityTracked s \<Longrightarrow> errorsOnlyWhileClosed tr s \<Longrightarrow> qualityTracked (run tr s)"
proof (induction tr arbitrary: s)
  case Nil
  then show ?case by simp
next
  case (Cons x tr)
  obtain now a where x: "x = (now, a)" by (cases x)
  from Cons.prems x have g: "case a of Transport name arg \<Rightarrow>
      name = ''connect_error'' \<longrightarrow> \<not> transportConnected s | _ \<Rightarrow> True"
    and r: "errorsOnlyWhileClosed tr (step now a s)" by simp_all
  show ?case
    using Cons.IH [OF wf_step [OF Cons.prems(1)] qualityTracked_step [OF Cons.prems(1,2) g] r] x
    by simp
qed

text \<open>
  Claim C1, as stated: after every sequence of transport events and operations the quality
  is Disconnected unless the state is Connected. It is not after \<open>connect\<close>,
  \<open>connect_error\<close>, \<open>pong\<close>: the error handler marks the session not connected while the
  transport stays connected, and the reply to the ping then sets the quality from the
  transport's flag.
\<close>

theorem pong_after_connect_error_counterexample:
  "connectionState (run pongAfterError initial) \<noteq> Connected
   \<and> connectionQuality (run pongAfterError initial) \<noteq> QDisconnected"
  by (simp add: pongAfterError_def connectedSession_def session_def someError_def
      connectionState_def run_defs)

text \<open>
  Claim C1, amended. After every sequence of transport events, timer firings and operations
  of the manager in which \<open>connect_error\<close> is delivered only while the transport's
  \<open>connected\<close> flag is false, the quality is Disconnected whenever the connection state is
  not Connected.
\<close>

theorem quality_disconnected_unless_connected:
  assumes "errorsOnlyWhileClosed tr initial"
    and "connectionState (run tr initial) \<noteq> Connected"
  shows "connectionQuality (run tr initial) = QDisconnected"
proof -
  have "qualityTracked initial"
    by (simp add: qualityTracked_def initial_def)
  from qualityTracked_run [OF wf_initial this assms(1)] assms(2) show ?thesis
    by (auto simp: qualityTracked_def connectionState_def split: if_splits)
qed

theorem quality_disconnected_unless_connected_witness:
  "errorsOnlyWhileClosed dropAndRetry initial
   \<and> connectionState (run dropAndRetry initial) \<noteq> Connected
   \<and> connectionQuality (run dropAndRetry initial) = QDisconnected"
proof -
  have a: "errorsOnlyWhileClosed dropAndRetry initial"
    by (simp add: dropAndRetry_def connectedSession_def session_def someError_def run_defs)
  have b: "connectionState (run dropAndRetry initial) \<noteq> Connected"
    by (simp add: dropAndRetry_def connectedSession_def session_def someError_def
        connectionState_def run_defs)
  from a b quality_disconnected_unless_connected [OF a b] show ?thesis by simp
qed

subsection \<open>The heartbeat timer\<close>

text \<open>
  Claim C2. The heartbeat interval is meant to be active exactly while the connection state
  is Connected, being cancelled on every transition away from Connected. Evaluated on the
  code: a \<open>connect_error\<close> received after \<open>connect\<close> leaves the state Disconnected with the
  interval of handle 1 still active, whereas a \<open>disconnect\<close> at the same point cancels it;
  and replacing the token of a connected session cancels the interval while \<open>isConnected\<close>
  stays true.
\<close>

theorem connect_error_keeps_heartbeat:
  "connectionState (run (connectedSession @ [(60, Transport ''connect_error'' someError)]) initial)
     = Disconnected
   \<and> intervals (run (connectedSession @ [(60, Transport ''connect_error'' someError)]) initial) = [1]
   \<and> intervals (run (connectedSession @ [(60, Transport ''disconnect'' (Str ''transport close''))])
        initial) = []
   \<and> connectionState (run tokenReplaced initial) = Connected
   \<and> intervals (run tokenReplaced initial) = []"
  by (simp add: tokenReplaced_def connectedSession_def session_def someError_def connectionState_def run_defs)

subsection \<open>Connection errors and drops\<close>

text \<open>
  Claim C4, as stated: a \<open>connect_error\<close> received in Connecting leaves the state
  Connecting. It does not: the session below is Connecting, and after the event it is not.
\<close>

theorem connect_error_ends_connecting_counterexample:
  "connectionState (run session initial) = Connecting
   \<and> connectionState (step 10 (Transport ''connect_error'' someError) (run session initial))
       \<noteq> Connecting"
  by (simp add: session_def someError_def connectionState_def run_defs)

text \<open>
  Claim C4, amended. In every reachable state with a session, in Connecting or in any other
  connection state, a \<open>connect_error\<close> event whose error message can be read and formatted
  adds one to the reconnect attempt count and leaves the connection state Disconnected, the
  quality Disconnected and the presence store notified offline, and changes nothing else,
  whatever the message says. When the message cannot be read or formatted, the handler
  throws before any update: the state is left as it was and the exception escapes to the
  event loop. Either way an authentication failure is not told apart from any other
  connection error.
\<close>

theorem connect_error_disconnects:
  assumes "hasCleanup (run tr initial)"
  shows "(property err ''message'' = Inr m \<and> convertible m \<longrightarrow>
      step now (Transport ''connect_error'' err) (run tr initial)
        = (run tr initial)\<lparr>isConnected := False, isConnecting := False,
             connectionQuality := QDisconnected,
             reconnectAttempts := reconnectAttempts (run tr initial) + 1,
             onlineStatus := onlineStatus (run tr initial) @ [False]\<rparr>
      \<and> connectionState (step now (Transport ''connect_error'' err) (run tr initial))
        = Disconnected
      \<and> reconnectAttempts (step now (Transport ''connect_error'' err) (run tr initial))
        = reconnectAttempts (run tr initial) + 1)
   \<and> (property err ''message'' = Inl e \<or> (property err ''message'' = Inr m \<and> \<not> convertible m)
      \<longrightarrow>
      step now (Transport ''connect_error'' err) (run tr initial)
        = (run tr initial)\<lparr>uncaught := uncaught (run tr initial) @ [TypeError]\<rparr>)"
proof -
  have w: "wf (run tr initial)" using reachable [of tr] by simp
  have e: "e = TypeError" by (cases e) simp
  show ?thesis
    using emit_named(1) [OF w, of err now] assms e
    by (auto simp: handleConnectError_def setOnlineStatus_def connectionState_def)
qed

theorem connect_error_disconnects_witness:
  "hasCleanup (run session initial)
   \<and> property authError ''message'' = Inr (Str ''Authentication error'')
   \<and> convertible (Str ''Authentication error'')
   \<and> connectionState (run session initial) = Connecting
   \<and> connectionState (step 10 (Transport ''connect_error'' authError) (run session initial))
       = Disconnected
   \<and> reconnectAttempts (step 10 (Transport ''connect_error'' authError) (run session initial))
       = 1
   \<and> property Undefined ''message'' = Inl TypeError
   \<and> connectionState (step 10 (Transport ''connect_error'' Undefined) (run session initial))
       = Connecting
   \<and> reconnectAttempts (step 10 (Transport ''connect_error'' Undefined) (run session initial))
       = 0"
proof -
  have h: "hasCleanup (run session initial)"
    and c: "isConnecting (run session initial)" "\<not> isConnected (run session initial)"
    and r: "reconnectAttempts (run session initial) = 0"
    by (simp_all add: session_def run_defs)
  have p: "property authError ''message'' = Inr (Str ''Authentication error'')"
    by (simp add: authError_def)
  show ?thesis
    using h c r p
      connect_error_disconnects [OF h, where err = authError
        and m = "Str ''Authentication error''" and now = 10]
      connect_error_disconnects [OF h, where err = Undefined and e = TypeError and now = 10]
    by (simp add: connectionState_def)
qed

lemma dispatch_connect_idle:
  assumes "\<forall>h\<in>set hs. h = HConnect \<or> \<not> is_core h"
  shows "isConnecting (dispatch hs arg now s) \<longrightarrow> hs = [] \<and> isConnecting s"
  using assms
proof (induction hs arbitrary: s)
  case Nil
  show ?case by simp
next
  case (Cons h hs)
  then have rest: "\<forall>h\<in>set hs. h = HConnect \<or> \<not> is_core h" by simp
  show ?case
  proof (cases "h = HConnect")
    case True
    show ?thesis
      using Cons.IH [OF rest, of "handleConnect now s"] True
      by (simp add: handleConnect_fields)
  next
    case False
    with Cons.prems obtain k t where h: "h = HOnConnect k t"
      by (cases h) (auto simp: is_core_def)
    have "\<not> isConnecting (onConnect k t s)"
      by (simp add: onConnect_def socket_off_def resolve_def clearTimeout_def
          split: option.splits)
    then show ?thesis
      using Cons.IH [OF rest, of "onConnect k t s"] h by simp
  qed
qed

lemma emit_connect_idle:
  assumes "wf s" and "socketRef s = Some sk" and "hasCleanup s"
  shows "\<not> isConnecting (transport_emit ''connect'' arg now s)"
proof -
  define s1 where "s1 = s\<lparr>socketRef := Some (sk\<lparr>connected := True\<rparr>)\<rparr>"
  define hs where "hs = listenersFor ''connect'' sk"
  have e: "transport_emit ''connect'' arg now s = dispatch hs arg now s1"
    using assms(2) by (simp add: transport_emit_def s1_def hs_def listenersFor_def)
  note c = connect_listeners [OF assms(1,2), folded hs_def]
  have "hs \<noteq> []" using c(3) assms(3) by auto
  then show ?thesis using dispatch_connect_idle [OF c(2), of arg now s1] e by simp
qed

lemma idleWhileOpen_emit:
  assumes "wf s" and "idleWhileOpen s"
    and "name = ''reconnect_attempt'' \<longrightarrow> \<not> transportConnected s"
  shows "idleWhileOpen (transport_emit name arg now s)"
proof (cases "socketRef s")
  case None
  then show ?thesis using assms(2) by (simp add: transport_emit_def)
next
  case (Some sk)
  note fr = transport_emit_frame [of name arg now s]
  have hc: "hasCleanup (transport_emit name arg now s) = hasCleanup s" using fr by simp
  consider (c) "name = ''connect''" | (d) "name = ''disconnect''"
    | (e) "name = ''connect_error''" | (r) "name = ''reconnect''"
    | (a) "name = ''reconnect_attempt''" | (p) "name = ''pong''"
    | (n) "name \<noteq> ''connect''" "name \<noteq> ''disconnect''" "name \<noteq> ''connect_error''"
          "name \<noteq> ''reconnect''" "name \<noteq> ''reconnect_attempt''" "name \<noteq> ''pong''" by blast
  then show ?thesis
  proof cases
    case c
    show ?thesis
      using emit_connect_idle [OF assms(1) Some, of arg now] hc c
      by (auto simp: idleWhileOpen_def)
  next
    case d
    show ?thesis
      using emit_disconnect [OF assms(1) Some, of arg now] assms(2) d
      by (auto simp: idleWhileOpen_def handleDisconnect_def setOnlineStatus_def clearInterval_def
          transportConnected_def maxReconnectAttempts_def Let_def
          split: option.splits if_splits)
  next
    case e
    show ?thesis using emit_named(1) [OF assms(1), of arg now] assms(2) e
      by (auto simp: idleWhileOpen_def transportConnected_def handleConnectError_def
          setOnlineStatus_def split: sum.splits if_splits)
  next
    case r
    show ?thesis using emit_named(2) [OF assms(1), of arg now] assms(2) r
      by (auto simp: idleWhileOpen_def transportConnected_def handleReconnect_def
          setOnlineStatus_def)
  next
    case a
    show ?thesis using emit_named(3) [OF assms(1), of arg now] assms(2,3) a
      by (auto simp: idleWhileOpen_def transportConnected_def handleReconnectAttempt_def)
  next
    case p
    show ?thesis using emit_pong_any [OF assms(1), of arg now] assms(2) p
      by (auto simp: idleWhileOpen_def transportConnected_def handlePong_def
          checkConnectionQuality_def Let_def split: sum.splits if_splits)
  next
    case n
    show ?thesis using emit_named(4) [OF assms(1) n, of arg now] assms(2) by simp
  qed
qed

lemma idleWhileOpen_effect: "idleWhileOpen (effect tok now s)"
  by (simp add: effect_def idleWhileOpen_def setOnlineStatus_def transportConnected_def Let_def
      split: option.splits)

lemma idleWhileOpen_step:
  assumes "wf s" and "idleWhileOpen s"
    and "case a of Transport name arg \<Rightarrow> name = ''reconnect_attempt'' \<longrightarrow> \<not> transportConnected s
         | _ \<Rightarrow> True"
  shows "idleWhileOpen (step now a s)"
proof (cases a)
  case (Render tok)
  have b: "\<And>s0 x p. idleWhileOpen (s0\<lparr>userToken := x\<rparr>) = idleWhileOpen s0"
    "\<And>s0 x p. idleWhileOpen (s0\<lparr>userToken := x, phase := p\<rparr>) = idleWhileOpen s0"
    by (simp_all add: idleWhileOpen_def transportConnected_def)
  show ?thesis
    using Render assms(2) idleWhileOpen_effect
    by (cases "phase s"; cases "tok = userToken s"; cases "hasCleanup s")
       (simp_all add: render_def b)
next
  case Unmount
  then show ?thesis using assms(2)
    by (cases "phase s"; cases "hasCleanup s") (simp_all add: unmount_def idleWhileOpen_def)
next
  case (Transport name arg)
  then show ?thesis using idleWhileOpen_emit [OF assms(1,2)] assms(3) by simp
next
  case (IntervalFire i)
  then show ?thesis using assms(2)
    by (simp add: idleWhileOpen_def sendPing_def transportConnected_def)
next
  case (TimeoutFire t)
  then show ?thesis using assms(2)
    by (auto simp: idleWhileOpen_def onTimeout_def clearTimeout_def resolve_def
        transportConnected_def split: option.splits)
next
  case EnsureConnected
  then show ?thesis using assms(2)
    by (auto simp: idleWhileOpen_def ensureConnected_def resolve_def transportConnected_def
        Let_def split: option.splits)
next
  case SendPing
  then show ?thesis using assms(2)
    by (simp add: idleWhileOpen_def sendPing_def transportConnected_def)
qed

lemma idleWhileOpen_run:
  "wf s \<Longrightarrow> idleWhileOpen s \<Longrightarrow> attemptsOnlyWhileClosed tr s \<Longrightarrow> idleWhileOpen (run tr s)"
proof (induction tr arbitrary: s)
  case Nil
  then show ?case by simp
next
  case (Cons x tr)
  obtain now a where x: "x = (now, a)" by (cases x)
  from Cons.prems x have g: "case a of Transport name arg \<Rightarrow>
      name = ''reconnect_attempt'' \<longrightarrow> \<not> transportConnected s | _ \<Rightarrow> True"
    and r: "attemptsOnlyWhileClosed tr (step now a s)" by simp_all
  show ?case
    using Cons.IH [OF wf_step [OF Cons.prems(1)] idleWhileOpen_step [OF Cons.prems(1,2) g] r] x
    by simp
qed

text \<open>
  Claim C5, as stated: a \<open>disconnect\<close> with the local reason \<open>io client disconnect\<close> leaves
  the state Disconnected. It does not when the hook is marked as connecting at that moment,
  since \<open>handleDisconnect\<close> leaves \<open>isConnecting\<close> alone on that path: below, the transport
  reports \<open>reconnect_attempt\<close> on the connected session, and the local disconnect that
  follows leaves the state Connecting.
\<close>

theorem local_disconnect_keeps_connecting_counterexample:
  "connectionState (run attemptWhileConnected initial) = Connected
   \<and> connectionState (step 70 (Transport ''disconnect'' (Str ''io client disconnect''))
        (run attemptWhileConnected initial)) = Connecting"
  by (simp add: attemptWhileConnected_def connectedSession_def session_def connectionState_def
      run_defs)

text \<open>
  Claim C5, amended. In every reachable state with a session, a \<open>disconnect\<close> event with a
  reason other than the local one adds one to the reconnect attempt count; the state is then
  Connecting if the new count is below 10, and \<open>isConnecting\<close> is false once it has reached
  10. With the local reason \<open>io client disconnect\<close>, \<open>isConnected\<close> becomes false and the
  count and \<open>isConnecting\<close> are left as they were; the state is Disconnected when the event
  comes from a connected transport that has reported \<open>reconnect_attempt\<close> only while it was
  closed. A \<open>connect\<close> event resets the count to 0.
\<close>

theorem disconnect_attempt_tracking:
  assumes "hasCleanup (run tr initial)"
  shows "(r \<noteq> ''io client disconnect'' \<longrightarrow>
      reconnectAttempts (step now (Transport ''disconnect'' (Str r)) (run tr initial))
        = reconnectAttempts (run tr initial) + 1
      \<and> (reconnectAttempts (run tr initial) + 1 < 10 \<longrightarrow>
           connectionState (step now (Transport ''disconnect'' (Str r)) (run tr initial))
             = Connecting)
      \<and> (10 \<le> reconnectAttempts (run tr initial) + 1 \<longrightarrow>
           \<not> isConnecting (step now (Transport ''disconnect'' (Str r)) (run tr initial))))
   \<and> \<not> isConnected
        (step now (Transport ''disconnect'' (Str ''io client disconnect'')) (run tr initial))
   \<and> isConnecting
        (step now (Transport ''disconnect'' (Str ''io client disconnect'')) (run tr initial))
       = isConnecting (run tr initial)
   \<and> reconnectAttempts
        (step now (Transport ''disconnect'' (Str ''io client disconnect'')) (run tr initial))
       = reconnectAttempts (run tr initial)
   \<and> (attemptsOnlyWhileClosed tr initial \<and> transportConnected (run tr initial) \<longrightarrow>
        connectionState
          (step now (Transport ''disconnect'' (Str ''io client disconnect'')) (run tr initial))
         = Disconnected)
   \<and> reconnectAttempts (step now (Transport ''connect'' arg) (run tr initial)) = 0"
proof -
  define s where "s = run tr initial"
  have w: "wf s" using reachable [of tr] by (simp add: s_def)
  have h: "hasCleanup s" using assms by (simp add: s_def)
  then obtain sk where sk: "socketRef s = Some sk"
    using no_session_no_handlers [OF w] by (cases "socketRef s") auto
  have "idleWhileOpen initial" by (simp add: idleWhileOpen_def initial_def)
  then have i: "attemptsOnlyWhileClosed tr initial \<and> transportConnected s \<longrightarrow> \<not> isConnecting s"
    using idleWhileOpen_run [OF wf_initial, of tr] h by (auto simp: idleWhileOpen_def s_def)
  have d: "step now (Transport ''disconnect'' x) s
      = dispatch [HDisconnect] x now (s\<lparr>socketRef := Some (sk\<lparr>connected := False\<rparr>)\<rparr>)" for x
    using emit_disconnect [OF w sk, of x now] h by simp
  have c: "reconnectAttempts (step now (Transport ''connect'' arg) s) = 0"
    using emit_connect(3) [OF w sk, of arg now] h by simp
  show ?thesis
    unfolding s_def [symmetric] d
    using c i by (auto simp: handleDisconnect_def setOnlineStatus_def clearInterval_def
        connectionState_def maxReconnectAttempts_def Let_def split: option.splits)
qed

theorem disconnect_attempt_tracking_witness:
  "hasCleanup (run connectedSession initial)
   \<and> ''transport close'' \<noteq> ''io client disconnect''
   \<and> reconnectAttempts (step 900 (Transport ''disconnect'' (Str ''transport close''))
        (run connectedSession initial)) = 1
   \<and> connectionState (step 900 (Transport ''disconnect'' (Str ''transport close''))
        (run connectedSession initial)) = Connecting
   \<and> attemptsOnlyWhileClosed connectedSession initial
   \<and> transportConnected (run connectedSession initial)
   \<and> connectionState (step 900 (Transport ''disconnect'' (Str ''io client disconnect''))
        (run connectedSession initial)) = Disconnected"
proof -
  have h: "hasCleanup (run connectedSession initial)"
    and r: "reconnectAttempts (run connectedSession initial) = 0"
    and a: "attemptsOnlyWhileClosed connectedSession initial"
    and c: "transportConnected (run connectedSession initial)"
    by (simp_all add: connectedSession_def session_def run_defs)
  show ?thesis
    using h r a c disconnect_attempt_tracking [OF h, of "''transport close''" 900] by simp
qed

subsection \<open>Heartbeat replies\<close>

text \<open>
  A reply whose payload has a timestamp that can be read and, when truthy, converts to a
  number, leaves the state that \<open>checkConnectionQuality\<close> computes: on a connected transport
  the quality is Good below 500 ms since the last ping, Poor from 500 ms and below 2000 ms,
  Disconnected from 2000 ms, and nothing else changes. Two such replies delivered at the
  same instant in the same state leave the same state.
\<close>

lemma pong_sets_quality:
  assumes "hasCleanup (run tr initial)" and "transportConnected (run tr initial)"
    and "property data ''timestamp'' = Inr ts" and "truthy ts \<longrightarrow> convertible ts"
  shows "step now (Transport ''pong'' data) (run tr initial)
           = (run tr initial)\<lparr>connectionQuality :=
               (if now - lastPingTime (run tr initial) < 500 then Good
                else if now - lastPingTime (run tr initial) < 2000 then Poor
                else QDisconnected)\<rparr>"
proof -
  have w: "wf (run tr initial)" using reachable [of tr] by simp
  show ?thesis
    using emit_pong [OF w assms(3,4), of now] assms(1,2)
    by (simp add: checkConnectionQuality_def Let_def)
qed

lemma pong_readable_payloads_agree:
  assumes "property d1 ''timestamp'' = Inr t1" and "truthy t1 \<longrightarrow> convertible t1"
    and "property d2 ''timestamp'' = Inr t2" and "truthy t2 \<longrightarrow> convertible t2"
  shows "step now (Transport ''pong'' d1) (run tr initial)
           = step now (Transport ''pong'' d2) (run tr initial)"
proof -
  have w: "wf (run tr initial)" using reachable [of tr] by simp
  show ?thesis
    using emit_pong [OF w assms(1,2)] emit_pong [OF w assms(3,4)] by simp
qed

text \<open>
  Claim C7. Each heartbeat reply is meant to set the quality from the time elapsed since
  the last ping: Good below 500 ms, Poor from 500 ms and below 2000 ms, Disconnected from
  2000 ms. Evaluated on the code: in the connected session, with the transport connected,
  the quality Good and 700 ms elapsed, a reply without a payload leaves the quality Good,
  because \<open>data.timestamp\<close> throws in the expression of the log line, before
  \<open>checkConnectionQuality\<close> is called; the same reply carrying a timestamp sets it to Poor.
\<close>

theorem pong_without_payload_keeps_quality:
  "transportConnected (run connectedSession initial)
   \<and> connectionQuality (run connectedSession initial) = Good
   \<and> 750 - lastPingTime (run connectedSession initial) = 700
   \<and> connectionQuality (step 750 (Transport ''pong'' Undefined) (run connectedSession initial))
       = Good
   \<and> uncaught (step 750 (Transport ''pong'' Undefined) (run connectedSession initial))
       = [TypeError]
   \<and> connectionQuality (step 750 (Transport ''pong'' (Obj [(''timestamp'', Num 50)]))
        (run connectedSession initial)) = Poor"
  by (simp add: connectedSession_def session_def run_defs)

text \<open>
  Claim C10. The quality after a \<open>pong\<close> is meant not to depend on the payload. Evaluated
  on the code: 700 ms after the ping, a reply carrying an empty object sets the quality to
  Poor, while a reply carrying \<open>null\<close>, or a timestamp that does not convert to a number (an
  object with a property \<open>toString\<close> of its own), leaves it Good: the expression of the log
  line throws before the quality is recomputed.
\<close>

theorem pong_payload_changes_quality:
  "connectionQuality (run emptyPayload initial) = Poor
   \<and> connectionQuality (run nullPayload initial) = Good
   \<and> connectionQuality (run unreadablePayload initial) = Good
   \<and> uncaught (run nullPayload initial) = [TypeError]
   \<and> uncaught (run unreadablePayload initial) = [TypeError]"
  by (simp add: nullPayload_def emptyPayload_def unreadablePayload_def connectedSession_def
      session_def run_defs)

subsection \<open>Presence notifications\<close>

lemma render_presence:
  assumes "wf s" and "tokenTracked s"
  shows "isConnected (render tok now s)
           = (if phase s = Unmounted \<or> (phase s = Mounted \<and> tok = userToken s)
              then isConnected s else \<not> no_token tok \<and> isConnected s)"
    and "onlineStatus (render tok now s)
           = onlineStatus s @
             (if phase s = Unmounted \<or> (phase s = Mounted \<and> tok = userToken s) \<or> \<not> no_token tok
              then [] else [False])"
    and "intervals (render tok now s)
           = (if phase s = Mounted \<and> tok \<noteq> userToken s \<and> hasCleanup s then [] else intervals s)"
proof -
  from assms(1) have wn: "waitRegsNamed s"
    and cr: "coreRegs s = (if hasCleanup s then core_listeners else [])"
    by (simp_all add: wf_def)
  note cf = cleanup_frame [OF assms(1), of now] and cd = cleanup_fields [OF assms(1), of now]
  note e1 = effect_quiet [OF cf(5,4), of tok now]
  have f: "phase s = Fresh \<Longrightarrow> \<not> hasCleanup s" using assms(2) by (auto simp: tokenTracked_def)
  have e0: "\<not> hasCleanup s \<Longrightarrow> isConnected (effect tok now s) = (\<not> no_token tok \<and> isConnected s)"
    "\<not> hasCleanup s \<Longrightarrow> onlineStatus (effect tok now s)
          = onlineStatus s @ (if no_token tok then [False] else [])"
    "\<not> hasCleanup s \<Longrightarrow> intervals (effect tok now s) = intervals s"
    using effect_quiet [OF wn, of tok now] cr by simp_all
  show "isConnected (render tok now s)
           = (if phase s = Unmounted \<or> (phase s = Mounted \<and> tok = userToken s)
              then isConnected s else \<not> no_token tok \<and> isConnected s)"
    using f e0 e1 cd by (cases "phase s"; cases "hasCleanup s") (auto simp: render_def)
  show "onlineStatus (render tok now s)
           = onlineStatus s @
             (if phase s = Unmounted \<or> (phase s = Mounted \<and> tok = userToken s) \<or> \<not> no_token tok
              then [] else [False])"
    using f e0 e1 cd by (cases "phase s"; cases "hasCleanup s") (auto simp: render_def)
  show "intervals (render tok now s)
           = (if phase s = Mounted \<and> tok \<noteq> userToken s \<and> hasCleanup s then [] else intervals s)"
    using f e0 e1 cd by (cases "phase s"; cases "hasCleanup s") (auto simp: render_def)
qed

lemma emit_presence:
  assumes "wf s"
  shows "(\<not> isConnected s \<and> isConnected (transport_emit name arg now s) \<longrightarrow>
            onlineStatus (transport_emit name arg now s) = onlineStatus s @ [True])
       \<and> (isConnected s \<and> \<not> isConnected (transport_emit name arg now s) \<longrightarrow>
            onlineStatus (transport_emit name arg now s) = onlineStatus s @ [False])"
proof -
  consider (c) "name = ''connect''" | (d) "name = ''disconnect''"
    | (e) "name = ''connect_error''" | (r) "name = ''reconnect''"
    | (a) "name = ''reconnect_attempt''" | (p) "name = ''pong''"
    | (n) "name \<noteq> ''connect''" "name \<noteq> ''disconnect''" "name \<noteq> ''connect_error''"
          "name \<noteq> ''reconnect''" "name \<noteq> ''reconnect_attempt''" "name \<noteq> ''pong''" by blast
  then show ?thesis
  proof cases
    case c
    show ?thesis
    proof (cases "socketRef s")
      case None
      then show ?thesis by (simp add: transport_emit_def)
    next
      case (Some sk)
      show ?thesis using emit_connect(1,2) [OF assms Some, of arg now] c by auto
    qed
  next
    case d
    show ?thesis
    proof (cases "socketRef s")
      case None
      then show ?thesis by (simp add: transport_emit_def)
    next
      case (Some sk)
      show ?thesis using emit_disconnect [OF assms Some, of arg now] d
        by (auto simp: handleDisconnect_def setOnlineStatus_def clearInterval_def
            maxReconnectAttempts_def Let_def split: option.splits if_splits)
    qed
  next
    case e
    show ?thesis using emit_named(1) [OF assms, of arg now] e
      by (auto simp: handleConnectError_def setOnlineStatus_def split: sum.splits if_splits)
  next
    case r
    show ?thesis using emit_named(2) [OF assms, of arg now] r
      by (auto simp: handleReconnect_def setOnlineStatus_def)
  next
    case a
    show ?thesis using emit_named(3) [OF assms, of arg now] a
      by (auto simp: handleReconnectAttempt_def)
  next
    case p
    show ?thesis using emit_pong_any [OF assms, of arg now] p
      by (auto simp: handlePong_def checkConnectionQuality_def Let_def
          split: sum.splits if_splits)
  next
    case n
    show ?thesis using emit_named(4) [OF assms n, of arg now] by simp
  qed
qed

lemma presence_step:
  assumes "wf s" and "tokenTracked s"
  shows "(\<not> isConnected s \<and> isConnected (step now a s) \<longrightarrow>
            onlineStatus (step now a s) = onlineStatus s @ [True])
       \<and> (isConnected s \<and> \<not> isConnected (step now a s) \<longrightarrow>
            onlineStatus (step now a s) = onlineStatus s @ [False])"
proof (cases a)
  case (Render tok)
  then show ?thesis using render_presence(1,2) [OF assms, of tok now] by auto
next
  case Unmount
  then show ?thesis using cleanup_fields(1) [OF assms(1), of now]
    by (cases "phase s"; cases "hasCleanup s") (simp_all add: unmount_def)
next
  case (Transport name arg)
  then show ?thesis using emit_presence [OF assms(1), of name arg now] by simp
next
  case (IntervalFire i)
  then show ?thesis by (simp add: sendPing_def)
next
  case (TimeoutFire t)
  then show ?thesis
    by (auto simp: onTimeout_def clearTimeout_def resolve_def split: option.splits)
next
  case EnsureConnected
  then show ?thesis
    by (auto simp: ensureConnected_def resolve_def Let_def split: option.splits)
next
  case SendPing
  then show ?thesis by (simp add: sendPing_def)
qed

text \<open>
  Claim C8. In every reachable state, a turn of the event loop that takes \<open>isConnected\<close>
  from false to true appends exactly one \<open>setOnlineStatus(true)\<close> to the calls received by
  the presence store, and a turn that takes it from true to false appends exactly one
  \<open>setOnlineStatus(false)\<close>, within that same turn. While a session exists these turns do
  occur: a \<open>connect\<close> event leaves \<open>isConnected\<close> true and appends \<open>true\<close>; a \<open>disconnect\<close>
  event, whatever its reason, and a \<open>connect_error\<close> event whose message can be read and
  formatted leave it false and append \<open>false\<close>. Clearing the token of a connected session
  leaves it not connected, with no interval active and no open transport, and the presence
  store has received \<open>false\<close> once.
\<close>

theorem presence_notified_on_transition:
  "(\<not> isConnected (run tr initial) \<and> isConnected (step now a (run tr initial)) \<longrightarrow>
      onlineStatus (step now a (run tr initial)) = onlineStatus (run tr initial) @ [True])
   \<and> (isConnected (run tr initial) \<and> \<not> isConnected (step now a (run tr initial)) \<longrightarrow>
      onlineStatus (step now a (run tr initial)) = onlineStatus (run tr initial) @ [False])
   \<and> (hasCleanup (run tr initial) \<longrightarrow>
      isConnected (step now (Transport ''connect'' arg) (run tr initial))
      \<and> onlineStatus (step now (Transport ''connect'' arg) (run tr initial))
          = onlineStatus (run tr initial) @ [True]
      \<and> \<not> isConnected (step now (Transport ''disconnect'' (Str r)) (run tr initial))
      \<and> onlineStatus (step now (Transport ''disconnect'' (Str r)) (run tr initial))
          = onlineStatus (run tr initial) @ [False]
      \<and> (property err ''message'' = Inr m \<and> convertible m \<longrightarrow>
          \<not> isConnected (step now (Transport ''connect_error'' err) (run tr initial))
          \<and> onlineStatus (step now (Transport ''connect_error'' err) (run tr initial))
              = onlineStatus (run tr initial) @ [False]))
   \<and> (isConnected (run tr initial) \<and> hasCleanup (run tr initial) \<longrightarrow>
      \<not> isConnected (step now (Render None) (run tr initial))
      \<and> onlineStatus (step now (Render None) (run tr initial))
          = onlineStatus (run tr initial) @ [False]
      \<and> intervals (step now (Render None) (run tr initial)) = []
      \<and> \<not> transportConnected (step now (Render None) (run tr initial)))"
proof -
  define s where "s = run tr initial"
  have w: "wf s" and t: "tokenTracked s" using reachable [of tr] by (simp_all add: s_def)
  have "hasCleanup s \<Longrightarrow> phase s = Mounted \<and> userToken s \<noteq> None"
    using t by (auto simp: tokenTracked_def no_token_def)
  moreover have "hasCleanup s \<Longrightarrow> socketRef (render None now s) = None"
    using calculation effect_quiet(4) [OF cleanup_frame(5,4) [OF w, of now], of None now]
    by (auto simp: render_def no_token_def)
  ultimately have n: "hasCleanup s \<Longrightarrow>
      \<not> isConnected (step now (Render None) s)
      \<and> onlineStatus (step now (Render None) s) = onlineStatus s @ [False]
      \<and> intervals (step now (Render None) s) = []
      \<and> \<not> transportConnected (step now (Render None) s)"
    using render_presence [OF w t, of None now]
    by (auto simp: no_token_def transportConnected_def)
  have c: "isConnected (step now (Transport ''connect'' arg) s)
      \<and> onlineStatus (step now (Transport ''connect'' arg) s) = onlineStatus s @ [True]"
    if h: "hasCleanup s"
  proof -
    obtain sk where sk: "socketRef s = Some sk"
      using no_session_no_handlers [OF w] h by (cases "socketRef s") auto
    show ?thesis using emit_connect(1,2) [OF w sk, of arg now] h by simp
  qed
  have d: "\<not> isConnected (step now (Transport ''disconnect'' (Str r)) s)
      \<and> onlineStatus (step now (Transport ''disconnect'' (Str r)) s) = onlineStatus s @ [False]"
    if h: "hasCleanup s"
  proof -
    obtain sk where sk: "socketRef s = Some sk"
      using no_session_no_handlers [OF w] h by (cases "socketRef s") auto
    show ?thesis using emit_disconnect [OF w sk, of "Str r" now] h
      by (simp add: handleDisconnect_def setOnlineStatus_def clearInterval_def
          maxReconnectAttempts_def Let_def split: option.splits)
  qed
  have e: "\<not> isConnected (step now (Transport ''connect_error'' err) s)
      \<and> onlineStatus (step now (Transport ''connect_error'' err) s) = onlineStatus s @ [False]"
    if "hasCleanup s" "property err ''message'' = Inr m" "convertible m"
    using emit_named(1) [OF w, of err now] that
    by (simp add: handleConnectError_def setOnlineStatus_def)
  show ?thesis
    using presence_step [OF w t, of now a] n c d e unfolding s_def [symmetric] by blast
qed

theorem presence_notified_on_transition_witness:
  "hasCleanup (run session initial) \<and> \<not> isConnected (run session initial)
   \<and> isConnected (step 50 (Transport ''connect'' Undefined) (run session initial))
   \<and> onlineStatus (step 50 (Transport ''connect'' Undefined) (run session initial)) = [True]
   \<and> isConnected (run connectedSession initial) \<and> hasCleanup (run connectedSession initial)
   \<and> \<not> isConnected (step 60 (Transport ''disconnect'' (Str ''transport close''))
          (run connectedSession initial))
   \<and> onlineStatus (step 60 (Transport ''disconnect'' (Str ''transport close''))
          (run connectedSession initial)) = [True, False]
   \<and> property authError ''message'' = Inr (Str ''Authentication error'')
   \<and> convertible (Str ''Authentication error'')
   \<and> \<not> isConnected (step 60 (Transport ''connect_error'' authError)
          (run connectedSession initial))
   \<and> onlineStatus (step 60 (Transport ''connect_error'' authError)
          (run connectedSession initial)) = [True, False]
   \<and> onlineStatus (step 60 (Render None) (run connectedSession initial)) = [True, False]"
proof -
  have a: "hasCleanup (run session initial)" "\<not> isConnected (run session initial)"
    "onlineStatus (run session initial) = []"
    by (simp_all add: session_def run_defs)
  have b: "isConnected (run connectedSession initial)" "hasCleanup (run connectedSession initial)"
    "onlineStatus (run connectedSession initial) = [True]"
    by (simp_all add: connectedSession_def session_def run_defs)
  have p: "property authError ''message'' = Inr (Str ''Authentication error'')"
    "convertible (Str ''Authentication error'')"
    by (simp_all add: authError_def)
  show ?thesis
    using a b p
      presence_notified_on_transition [where tr = session and now = 50 and arg = Undefined
        and a = SendPing and r = "''transport close''" and err = authError
        and m = "Str ''Authentication error''"]
      presence_notified_on_transition [where tr = connectedSession and now = 60
        and arg = Undefined and a = SendPing and r = "''transport close''" and err = authError
        and m = "Str ''Authentication error''"]
    by simp
qed

subsection \<open>Teardown\<close>

lemma released_cleanup:
  assumes "wf s"
  shows "released (cleanup now s)"
  using cleanup_frame(4) [OF assms, of now] cleanup_fields(10,11) [OF assms, of now]
  by (simp add: released_def)

lemma released_bookkeeping:
  "released (s\<lparr>phase := p, hasCleanup := c\<rparr>) = released s"
  by (simp add: released_def coreRegs_def transportConnected_def)

lemma released_quiet:
  assumes "released s"
  shows "step later (IntervalFire i) s = s"
    and "case socketRef s of None \<Rightarrow> True
         | Some sk \<Rightarrow> list_all (\<lambda>h. \<not> is_core h) (listenersFor name sk)"
proof -
  show "step later (IntervalFire i) s = s" using assms by (simp add: released_def)
  show "case socketRef s of None \<Rightarrow> True
         | Some sk \<Rightarrow> list_all (\<lambda>h. \<not> is_core h) (listenersFor name sk)"
  proof (cases "socketRef s")
    case None
    then show ?thesis by simp
  next
    case (Some sk)
    have "filter is_core (listenersFor name sk) = []"
      using listenersFor_core [OF Some, of name] assms by (simp add: released_def)
    then show ?thesis using Some by (simp add: filter_empty_conv list_all_iff)
  qed
qed

lemma waitRegs_off:
  "is_core h \<Longrightarrow> waitRegs (socket_off n h s) = waitRegs s"
  by (auto simp: waitRegs_def socket_off_def filter_remove1_other split: option.splits)

lemma waitRegs_cleanup:
  assumes "wf s"
  shows "waitRegs (cleanup now s) = waitRegs s"
proof -
  have a: "waitRegs (s0\<lparr>socketRef := map_option (\<lambda>sk. sk\<lparr>connected := False\<rparr>) (socketRef s0)\<rparr>)
      = waitRegs s0" for s0
    by (cases "socketRef s0") (simp_all add: waitRegs_def)
  have b: "waitRegs (case pingIntervalRef s of Some i \<Rightarrow> clearInterval i s | None \<Rightarrow> s)
      = waitRegs s"
    by (simp add: waitRegs_def clearInterval_def split: option.splits)
  show ?thesis
    unfolding cleanup_explicit [OF assms, of now]
    by (simp add: a b waitRegs_off is_core_def)
qed

lemma dispatch_waits:
  assumes "\<forall>h\<in>set hs. \<not> is_core h"
  shows "intervals (dispatch hs arg now s) = intervals s"
  using assms
proof (induction hs arbitrary: s)
  case Nil
  show ?case by simp
next
  case (Cons h hs)
  then obtain k t where h: "h = HOnConnect k t" by (cases h) (auto simp: is_core_def)
  show ?case using Cons.IH [of "onConnect k t s"] Cons.prems h
    by (simp add: onConnect_fields)
qed

lemma emit_without_handlers:
  assumes "wf s" and "\<not> hasCleanup s"
  shows "intervals (transport_emit name arg now s) = intervals s"
proof (cases "socketRef s")
  case None
  then show ?thesis by (simp add: transport_emit_def)
next
  case (Some sk)
  define sk' where "sk' = (if name = ''connect'' then sk\<lparr>connected := True\<rparr>
                     else if name = ''disconnect'' then sk\<lparr>connected := False\<rparr>
                     else sk)"
  have l: "listenersFor name sk' = listenersFor name sk"
    by (simp add: sk'_def listenersFor_def)
  have e: "transport_emit name arg now s
      = dispatch (listenersFor name sk) arg now (s\<lparr>socketRef := Some sk'\<rparr>)"
    using Some l by (simp add: transport_emit_def sk'_def Let_def)
  have "filter is_core (listenersFor name sk) = []"
    using listenersFor_core [OF Some, of name] assms by (simp add: wf_def)
  then have "\<forall>h\<in>set (listenersFor name sk). \<not> is_core h"
    by (simp add: filter_empty_conv)
  from dispatch_waits [OF this, of arg now "s\<lparr>socketRef := Some sk'\<rparr>"] e
  show ?thesis by simp
qed

lemma unmounted_step:
  assumes "wf s" and "phase s = Unmounted" and "\<not> hasCleanup s" and "intervals s = []"
  shows "wf (step now a s) \<and> phase (step now a s) = Unmounted \<and> \<not> hasCleanup (step now a s)
    \<and> intervals (step now a s) = []"
proof -
  have "phase (step now a s) = Unmounted \<and> \<not> hasCleanup (step now a s)
      \<and> intervals (step now a s) = []"
  proof (cases a)
    case (Render tok)
    then show ?thesis using assms by (simp add: render_def)
  next
    case Unmount
    then show ?thesis using assms by (simp add: unmount_def)
  next
    case (Transport name arg)
    then show ?thesis
      using assms transport_emit_frame [of name arg now s]
        emit_without_handlers [OF assms(1,3), of name arg now] by simp
  next
    case (IntervalFire i)
    then show ?thesis using assms by simp
  next
    case (TimeoutFire t)
    then show ?thesis using assms
      by (auto simp: onTimeout_def clearTimeout_def resolve_def split: option.splits)
  next
    case EnsureConnected
    then show ?thesis using assms
      by (auto simp: ensureConnected_def resolve_def Let_def split: option.splits)
  next
    case SendPing
    then show ?thesis using assms by (simp add: sendPing_def)
  qed
  then show ?thesis using wf_step [OF assms(1)] by simp
qed

lemma unmounted_run:
  "wf s \<Longrightarrow> phase s = Unmounted \<Longrightarrow> \<not> hasCleanup s \<Longrightarrow> intervals s = [] \<Longrightarrow>
   wf (run tr s) \<and> \<not> hasCleanup (run tr s) \<and> intervals (run tr s) = []"
proof (induction tr arbitrary: s)
  case Nil
  then show ?case by simp
next
  case (Cons x tr)
  obtain now a where x: "x = (now, a)" by (cases x)
  note u = unmounted_step [OF Cons.prems, of now a]
  show ?case using Cons.IH [of "step now a s"] u x by simp
qed

text \<open>
  Claim C9, as stated: once the teardown has returned, no stale timer or listener callback
  can fire. The cleanup cancels the heartbeat interval and removes the six handlers; it
  does not touch the timeout and the one-shot listener of an \<open>ensureConnected\<close> call that is
  still waiting. Below, the component is unmounted while a call waits: the timeout is
  still pending and fires at 10005 ms, settling the promise, and the listener is still
  registered under \<open>connect\<close> and runs if that event is emitted. After the token was cleared
  instead, the timeout fires just the same.
\<close>

theorem pending_wait_outlives_teardown_counterexample:
  "timeouts (run unmountedWhileWaiting initial) = [(1, 10005, 0)]
   \<and> promises (run unmountedWhileWaiting initial) = [Pending]
   \<and> promises (step 10005 (TimeoutFire 1) (run unmountedWhileWaiting initial)) = [Resolved False]
   \<and> map_option (listenersFor ''connect'') (socketRef (run unmountedWhileWaiting initial))
       = Some [HOnConnect 0 1]
   \<and> promises (step 9000 (Transport ''connect'' Undefined) (run unmountedWhileWaiting initial))
       = [Resolved True]
   \<and> timeouts (run clearedWhileWaiting initial) = [(1, 10005, 0)]
   \<and> promises (run clearedWhileWaiting initial) = [Pending]
   \<and> promises (step 10005 (TimeoutFire 1) (run clearedWhileWaiting initial)) = [Resolved False]"
  by (simp add: unmountedWhileWaiting_def clearedWhileWaiting_def waiting_def session_def
      run_defs)

text \<open>
  Claim C9, amended. In every reachable state with a session, the cleanup function, and
  with it unmounting and clearing the token, returns a state in which the heartbeat
  interval is cancelled, none of the six handlers is registered and the transport is closed.
  After unmounting, whatever happens next, no interval is active and none of the six
  handlers is registered; after the token was cleared, no interval firing and no transport
  event changes the state. The timeouts of \<open>ensureConnected\<close> calls that are still waiting
  are left pending, and on unmounting their one-shot listeners are left registered: such
  a wait ends only by settling.
\<close>

theorem teardown_releases_session:
  assumes "hasCleanup (run tr initial)"
  shows "released (cleanup now (run tr initial))
   \<and> released (step now Unmount (run tr initial))
   \<and> released (step now (Render None) (run tr initial))
   \<and> socketRef (step now (Render None) (run tr initial)) = None
   \<and> intervals (run after (step now Unmount (run tr initial))) = []
   \<and> coreRegs (run after (step now Unmount (run tr initial))) = []
   \<and> step later (IntervalFire i) (step now (Render None) (run tr initial))
       = step now (Render None) (run tr initial)
   \<and> step later (Transport name arg) (step now (Render None) (run tr initial))
       = step now (Render None) (run tr initial)
   \<and> timeouts (step now Unmount (run tr initial)) = timeouts (run tr initial)
   \<and> timeouts (step now (Render None) (run tr initial)) = timeouts (run tr initial)
   \<and> waitRegs (step now Unmount (run tr initial)) = waitRegs (run tr initial)"
proof -
  define s where "s = run tr initial"
  have w: "wf s" and t: "tokenTracked s" using reachable [of tr] by (simp_all add: s_def)
  have h: "hasCleanup s" using assms by (simp add: s_def)
  then have m: "phase s = Mounted" "userToken s \<noteq> None"
    using t by (auto simp: tokenTracked_def no_token_def)
  have c: "released (cleanup now s)" using released_cleanup [OF w] .
  have u: "step now Unmount s = (cleanup now s)\<lparr>phase := Unmounted, hasCleanup := False\<rparr>"
    using h m by (simp add: unmount_def)
  then have ru: "released (step now Unmount s)" using c by (simp add: released_bookkeeping)
  have n: "socketRef (step now (Render None) s) = None"
    using h m effect_quiet(4) [OF cleanup_frame(5,4) [OF w, of now], of None now]
    by (auto simp: render_def no_token_def)
  have "intervals (step now (Render None) s) = []"
    using h m render_presence(3) [OF w t, of None now] by auto
  with n have rn: "released (step now (Render None) s)"
    by (simp add: released_def coreRegs_def transportConnected_def)
  have e: "step later (Transport name arg) (step now (Render None) s) = step now (Render None) s"
    using n by (simp add: transport_emit_def)
  have wu: "wf (step now Unmount s)" using wf_step [OF w] .
  have pu: "phase (step now Unmount s) = Unmounted" "\<not> hasCleanup (step now Unmount s)"
    using u by simp_all
  have iu: "intervals (step now Unmount s) = []" using ru by (simp add: released_def)
  note f = unmounted_run [OF wu pu iu, of after]
  then have fc: "coreRegs (run after (step now Unmount s)) = []" by (simp add: wf_def)
  have tu: "timeouts (step now Unmount s) = timeouts s"
    using u cleanup_fields(7) [OF w, of now] by simp
  have tn: "timeouts (step now (Render None) s) = timeouts s"
    using h m cleanup_fields(7) [OF w, of now] socket_disconnect_quiet
        [OF cleanup_frame(5,4) [OF w, of now], of now]
    by (simp add: render_def effect_def no_token_def setOnlineStatus_def Let_def
        split: option.splits)
  have wr: "waitRegs (step now Unmount s) = waitRegs s"
    using u waitRegs_cleanup [OF w, of now] by (simp add: waitRegs_def)
  show ?thesis
    using c ru rn n e f fc tu tn wr released_quiet(1) [OF rn, of later i]
    by (simp add: s_def)
qed

theorem teardown_releases_session_witness:
  "hasCleanup (run connectedSession initial)
   \<and> intervals (run connectedSession initial) = [1]
   \<and> released (step 60 Unmount (run connectedSession initial))
   \<and> released (step 60 (Render None) (run connectedSession initial))
   \<and> intervals (run [(70, Transport ''connect'' Undefined), (5050, IntervalFire 1)]
        (step 60 Unmount (run connectedSession initial))) = []"
proof -
  have h: "hasCleanup (run connectedSession initial)"
    and i: "intervals (run connectedSession initial) = [1]"
    by (simp_all add: connectedSession_def session_def run_defs)
  show ?thesis
    using h i teardown_releases_session [OF h, of 60
        "[(70, Transport ''connect'' Undefined), (5050, IntervalFire 1)]"] by simp
qed

subsection \<open>Waiting for the connection\<close>

text \<open>
  Claim C3. A call of \<open>ensureConnected\<close> is meant to remove its one-shot \<open>connect\<close> listener
  when it settles, on the timeout path too. Evaluated on the code: a call made at 5 ms on a
  transport that is not connected, whose timeout fires at 10005 ms, resolves \<open>false\<close> and
  leaves its \<open>onConnect\<close> registered next to \<open>handleConnect\<close>.
\<close>

theorem ensureConnected_timeout_keeps_listener:
  "map_option (listenersFor ''connect'') (socketRef (run session initial)) = Some [HConnect]
   \<and> promises (run (session @ [(5, EnsureConnected), (10005, TimeoutFire 1)]) initial)
       = [Resolved False]
   \<and> map_option (listenersFor ''connect'')
        (socketRef (run (session @ [(5, EnsureConnected), (10005, TimeoutFire 1)]) initial))
       = Some [HConnect, HOnConnect 0 1]"
  by (simp add: session_def run_defs)

lemma settles_trans: "settles qs rs \<Longrightarrow> settles ps qs \<Longrightarrow> settles ps rs"
  by (induction rule: settles.induct) (auto intro: settles.intros)

lemma settles_keeps:
  assumes "settles ps qs"
  shows "length ps \<le> length qs"
    and "j < length ps \<Longrightarrow> ps ! j \<noteq> Pending \<Longrightarrow> qs ! j = ps ! j"
    and "Rejected \<in> set qs \<Longrightarrow> Rejected \<in> set ps"
  using assms
proof (induction rule: settles.induct)
  case (same ps)
  { case 1 show ?case by simp }
  { case 2 show ?case by simp }
  { case 3 then show ?case by simp }
next
  case (created ps qs)
  { case 1 then show ?case using created.IH(1) by simp }
  { case 2 then show ?case using created.IH(1,2) by (simp add: nth_append) }
  { case 3 then show ?case using created.IH(3) by simp }
next
  case (resolved ps qs k b)
  { case 1 then show ?case using resolved.IH(1) by simp }
  { case 2 then show ?case using resolved.IH(1,2) resolved.hyps by (cases "j = k") auto }
  { case 3 then show ?case using resolved.IH(3) resolved.hyps
      by (auto dest!: set_update_subset_insert [THEN subsetD]) }
qed

lemma settles_resolve: "settles (promises s) (promises (resolve k v s))"
  by (auto simp: resolve_def intro: settles.intros)

lemma settles_call:
  assumes "call h arg now s = Inr s'"
  shows "settles (promises s) (promises s')"
proof (cases h)
  case (HOnConnect k t)
  have "promises s' = promises (resolve k True ((clearTimeout t s)\<lparr>isConnecting := False\<rparr>))"
    using assms HOnConnect by (auto simp: onConnect_def socket_off_def split: option.splits)
  moreover have "promises ((clearTimeout t s)\<lparr>isConnecting := False\<rparr>) = promises s"
    by (simp add: clearTimeout_def)
  ultimately show ?thesis
    using settles_resolve [of "(clearTimeout t s)\<lparr>isConnecting := False\<rparr>" k True] by simp
qed (use assms in \<open>auto simp: prim_defs handler_defs Let_def intro: settles.same
      split: option.splits sum.splits if_splits\<close>)

lemma settles_dispatch: "settles (promises s) (promises (dispatch hs arg now s))"
proof (induction hs arbitrary: s)
  case Nil
  show ?case by (simp add: settles.same)
next
  case (Cons h hs)
  show ?case
  proof (cases "call h arg now s")
    case (Inl e)
    then show ?thesis by (simp add: settles.same)
  next
    case (Inr s')
    from settles_trans [OF Cons.IH [of s'] settles_call [OF Inr]] Inr show ?thesis by simp
  qed
qed

lemma settles_emit: "settles (promises s) (promises (transport_emit name arg now s))"
proof (cases "socketRef s")
  case None
  then show ?thesis by (simp add: transport_emit_def settles.same)
next
  case (Some sk)
  have "\<And>sk'. settles (promises (s\<lparr>socketRef := Some sk'\<rparr>))
      (promises (dispatch (listenersFor name sk') arg now (s\<lparr>socketRef := Some sk'\<rparr>)))"
    by (rule settles_dispatch)
  then show ?thesis using Some by (simp add: transport_emit_def Let_def)
qed

lemma settles_socket_disconnect: "settles (promises s) (promises (socket_disconnect now s))"
  using settles_emit by (simp add: socket_disconnect_def settles.same)

lemma promises_off [simp]: "promises (socket_off n h s) = promises s"
  by (simp add: socket_off_def split: option.splits)

lemma settles_cleanup: "settles (promises s) (promises (cleanup now s))"
proof -
  define s7 where "s7 = socket_off ''pong'' HPong (socket_off ''reconnect_attempt'' HReconnectAttempt
    (socket_off ''reconnect'' HReconnect (socket_off ''connect_error'' HConnectError
    (socket_off ''disconnect'' HDisconnect (socket_off ''connect'' HConnect
      (case pingIntervalRef s of Some i \<Rightarrow> clearInterval i s | None \<Rightarrow> s))))))"
  have "promises s7 = promises s"
    by (simp add: s7_def clearInterval_def split: option.splits)
  moreover have "cleanup now s = socket_disconnect now s7"
    by (simp add: cleanup_def s7_def Let_def)
  ultimately show ?thesis using settles_socket_disconnect [of s7 now] by simp
qed

lemma settles_effect: "settles (promises s) (promises (effect tok now s))"
  using settles_socket_disconnect [of s now]
  by (auto simp: effect_def setOnlineStatus_def Let_def settles.same split: option.splits)

lemma settles_render: "settles (promises s) (promises (render tok now s))"
  using settles_effect [of s tok now]
    settles_trans [OF settles_effect [of "cleanup now s" tok now] settles_cleanup [of s now]]
  by (auto simp: render_def settles.same split: phase.splits)

lemma settles_unmount: "settles (promises s) (promises (unmount now s))"
  using settles_cleanup [of s now]
  by (auto simp: unmount_def settles.same split: phase.splits)

lemma settles_ensureConnected: "settles (promises s) (promises (ensureConnected now s))"
proof -
  define s0 where "s0 = s\<lparr>promises := promises s @ [Pending]\<rparr>"
  have a: "settles (promises s) (promises s0)"
    by (simp add: s0_def settles.created settles.same)
  have "settles (promises s) (promises (resolve k v s0))" for k v
    using settles_trans [OF settles_resolve [of s0 k v] a] .
  then show ?thesis using a
    by (auto simp: ensureConnected_def Let_def s0_def split: option.splits)
qed

lemma settles_timeout: "settles (promises s) (promises (onTimeout k (clearTimeout t s)))"
  using settles_resolve [of "(clearTimeout t s)\<lparr>isConnecting := False\<rparr>" k False]
  by (simp add: onTimeout_def clearTimeout_def)

lemma settles_step: "settles (promises s) (promises (step now a s))"
  by (cases a)
    (auto simp: settles_render settles_unmount settles_emit settles_ensureConnected
      settles_timeout settles.same sendPing_def split: option.splits)

lemma settles_run: "settles (promises s) (promises (run tr s))"
proof (induction tr arbitrary: s)
  case Nil
  show ?case by (simp add: settles.same)
next
  case (Cons x tr)
  obtain now a where x: "x = (now, a)" by (cases x)
  show ?case using settles_trans [OF Cons.IH [of "step now a s"] settles_step [of s now a]] x
    by simp
qed

lemma timersFresh_cong:
  "timeouts s' = timeouts s \<Longrightarrow> nextTimer s' = nextTimer s \<Longrightarrow> timersFresh s' = timersFresh s"
  by (simp add: timersFresh_def)

lemma list_all_less_Suc:
  "list_all (\<lambda>(t, due, k). t < n) xs \<Longrightarrow> list_all (\<lambda>(t, due, k). t < Suc n) xs"
  by (induction xs) auto

lemma timersFresh_clearTimeout: "timersFresh s \<Longrightarrow> timersFresh (clearTimeout t s)"
  by (auto simp: timersFresh_def clearTimeout_def distinct_map_filter list_all_iff)

lemma timersFresh_call:
  assumes "call h arg now s = Inr s'" and "timersFresh s"
  shows "timersFresh s'"
proof (cases h)
  case HConnect
  then have "timeouts s' = timeouts s" "nextTimer s' = Suc (nextTimer s)"
    using assms(1) by (auto simp: handleConnect_fields handleConnect_def sendPing_def
        setOnlineStatus_def clearInterval_def Let_def split: option.splits)
  then show ?thesis using assms(2) by (simp add: timersFresh_def list_all_less_Suc)
next
  case (HOnConnect k t)
  then have "timeouts s' = timeouts (clearTimeout t s)" "nextTimer s' = nextTimer (clearTimeout t s)"
    using assms(1) by (auto simp: onConnect_def socket_off_def resolve_def clearTimeout_def
        split: option.splits)
  then show ?thesis using timersFresh_clearTimeout [OF assms(2), of t] timersFresh_cong by blast
qed (use assms in \<open>auto simp: prim_defs handler_defs timersFresh_def Let_def
      split: option.splits sum.splits if_splits\<close>)

lemma timersFresh_dispatch: "timersFresh s \<Longrightarrow> timersFresh (dispatch hs arg now s)"
proof (induction hs arbitrary: s)
  case Nil
  then show ?case by simp
next
  case (Cons h hs)
  show ?case
  proof (cases "call h arg now s")
    case (Inl e)
    then show ?thesis using Cons.prems by (simp add: timersFresh_def)
  next
    case (Inr s')
    from Cons.IH [OF timersFresh_call [OF Inr Cons.prems]] Inr show ?thesis by simp
  qed
qed

lemma timersFresh_emit:
  assumes "timersFresh s"
  shows "timersFresh (transport_emit name arg now s)"
proof (cases "socketRef s")
  case None
  then show ?thesis using assms by (simp add: transport_emit_def)
next
  case (Some sk)
  have "\<And>sk'. timersFresh (s\<lparr>socketRef := Some sk'\<rparr>)"
    using assms by (simp add: timersFresh_def)
  then have "\<And>sk'. timersFresh (dispatch (listenersFor name sk') arg now (s\<lparr>socketRef := Some sk'\<rparr>))"
    by (rule timersFresh_dispatch)
  then show ?thesis using Some by (simp add: transport_emit_def Let_def)
qed

lemma timersFresh_socket_disconnect: "timersFresh s \<Longrightarrow> timersFresh (socket_disconnect now s)"
  using timersFresh_emit by (simp add: socket_disconnect_def)

lemma timers_off [simp]:
  "timeouts (socket_off n h s) = timeouts s" "nextTimer (socket_off n h s) = nextTimer s"
  by (simp_all add: socket_off_def split: option.splits)

lemma timersFresh_cleanup: "timersFresh s \<Longrightarrow> timersFresh (cleanup now s)"
proof -
  assume t: "timersFresh s"
  define s7 where "s7 = socket_off ''pong'' HPong (socket_off ''reconnect_attempt'' HReconnectAttempt
    (socket_off ''reconnect'' HReconnect (socket_off ''connect_error'' HConnectError
    (socket_off ''disconnect'' HDisconnect (socket_off ''connect'' HConnect
      (case pingIntervalRef s of Some i \<Rightarrow> clearInterval i s | None \<Rightarrow> s))))))"
  have "timeouts s7 = timeouts s" "nextTimer s7 = nextTimer s"
    by (simp_all add: s7_def clearInterval_def split: option.splits)
  then have "timersFresh s7" using t timersFresh_cong by blast
  moreover have "cleanup now s = socket_disconnect now s7"
    by (simp add: cleanup_def s7_def Let_def)
  ultimately show ?thesis using timersFresh_socket_disconnect [of s7 now] by simp
qed

lemma timersFresh_effect: "timersFresh s \<Longrightarrow> timersFresh (effect tok now s)"
  using timersFresh_socket_disconnect [of s now]
  by (auto simp: effect_def setOnlineStatus_def Let_def timersFresh_def split: option.splits)

lemma timersFresh_bookkeeping [simp]:
  "timersFresh (s\<lparr>userToken := x\<rparr>) = timersFresh s"
  "timersFresh (s\<lparr>userToken := x, phase := p\<rparr>) = timersFresh s"
  "timersFresh (s\<lparr>phase := p, hasCleanup := c\<rparr>) = timersFresh s"
  by (simp_all add: timersFresh_def)

lemma timersFresh_render: "timersFresh s \<Longrightarrow> timersFresh (render tok now s)"
  using timersFresh_effect [of s tok now] timersFresh_effect [of "cleanup now s" tok now]
    timersFresh_cleanup [of s now]
  by (auto simp: render_def split: phase.splits)

lemma timersFresh_unmount: "timersFresh s \<Longrightarrow> timersFresh (unmount now s)"
  using timersFresh_cleanup [of s now]
  by (auto simp: unmount_def split: phase.splits)

lemma timersFresh_ensureConnected: "timersFresh s \<Longrightarrow> timersFresh (ensureConnected now s)"
  by (auto simp: ensureConnected_def resolve_def Let_def timersFresh_def list_all_less_Suc
      list_all_iff split: option.splits)

lemma timersFresh_timeout: "timersFresh s \<Longrightarrow> timersFresh (onTimeout k (clearTimeout t s))"
  using timersFresh_clearTimeout [of s t]
    timersFresh_cong [of "onTimeout k (clearTimeout t s)" "clearTimeout t s"]
  by (simp add: onTimeout_def resolve_def)

lemma timersFresh_sendPing: "timersFresh s \<Longrightarrow> timersFresh (sendPing now s)"
  by (simp add: sendPing_def timersFresh_def)

lemma timersFresh_step: "timersFresh s \<Longrightarrow> timersFresh (step now a s)"
  by (cases a)
    (auto simp: timersFresh_render timersFresh_unmount timersFresh_emit
      timersFresh_ensureConnected timersFresh_timeout timersFresh_sendPing
      split: option.splits)

lemma timersFresh_run: "timersFresh s \<Longrightarrow> timersFresh (run tr s)"
  by (induction tr arbitrary: s) (auto simp: timersFresh_step)

lemma timersFresh_reachable: "timersFresh (run tr initial)"
  by (rule timersFresh_run) (simp add: timersFresh_def initial_def)

lemma find_pending:
  "distinct (map fst xs) \<Longrightarrow> (t, due, k) \<in> set xs \<Longrightarrow>
   find (\<lambda>(i, due, k). i = t) xs = Some (t, due, k)"
  by (induction xs) (auto simp: rev_image_eqI)

lemma timeout_fires:
  assumes "timersFresh s" and "(t, due, k) \<in> set (timeouts s)"
  shows "step now (TimeoutFire t) s = (if due \<le> now then onTimeout k (clearTimeout t s) else s)"
  using find_pending [of "timeouts s" t due k] assms by (simp add: timersFresh_def)

lemma timeout_resolves:
  assumes "k < length (promises s)" and "promises s ! k = Pending"
  shows "promises (onTimeout k (clearTimeout t s)) ! k = Resolved False"
  using assms by (simp add: onTimeout_def clearTimeout_def resolve_def)

lemma onConnect_promises:
  "promises (onConnect k t s)
     = (if k < length (promises s) \<and> promises s ! k = Pending
        then (promises s)[k := Resolved True] else promises s)"
  by (simp add: onConnect_def resolve_def clearTimeout_def)

lemma dispatch_connect_promise:
  assumes "\<forall>h\<in>set hs. h = HConnect \<or> \<not> is_core h"
    and "k < length (promises s)"
    and "promises s ! k = Pending \<or> promises s ! k = Resolved True"
  shows "k < length (promises (dispatch hs arg now s))
    \<and> (promises (dispatch hs arg now s) ! k = Pending
        \<or> promises (dispatch hs arg now s) ! k = Resolved True)
    \<and> (promises s ! k = Resolved True \<or> (\<exists>t. HOnConnect k t \<in> set hs) \<longrightarrow>
        promises (dispatch hs arg now s) ! k = Resolved True)"
  using assms
proof (induction hs arbitrary: s)
  case Nil
  then show ?case by simp
next
  case (Cons h hs)
  then have rest: "\<forall>h\<in>set hs. h = HConnect \<or> \<not> is_core h" by simp
  show ?case
  proof (cases "h = HConnect")
    case True
    show ?thesis
      using Cons.IH [OF rest, of "handleConnect now s"] Cons.prems(2,3) True
      by (simp add: handleConnect_fields)
  next
    case False
    with Cons.prems(1) obtain k' t' where h: "h = HOnConnect k' t'"
      by (cases h) (auto simp: is_core_def)
    have l: "k < length (promises (onConnect k' t' s))"
      using Cons.prems(2) by (simp add: onConnect_promises)
    have p: "promises (onConnect k' t' s) ! k = Pending
        \<or> promises (onConnect k' t' s) ! k = Resolved True"
      using Cons.prems(2,3) by (auto simp: onConnect_promises nth_list_update)
    have q: "promises s ! k = Resolved True \<or> k' = k \<Longrightarrow>
        promises (onConnect k' t' s) ! k = Resolved True"
      using Cons.prems(2,3) by (auto simp: onConnect_promises nth_list_update)
    show ?thesis
      using Cons.IH [OF rest l p] h q by auto
  qed
qed

lemma connect_resolves:
  assumes "wf s" and "socketRef s = Some sk"
    and "(''connect'', HOnConnect k t) \<in> set (listeners sk)"
    and "k < length (promises s)" and "promises s ! k = Pending"
  shows "promises (transport_emit ''connect'' arg now s) ! k = Resolved True"
proof -
  define s1 where "s1 = s\<lparr>socketRef := Some (sk\<lparr>connected := True\<rparr>)\<rparr>"
  define hs where "hs = listenersFor ''connect'' sk"
  have e: "transport_emit ''connect'' arg now s = dispatch hs arg now s1"
    using assms(2) by (simp add: transport_emit_def s1_def hs_def listenersFor_def)
  have m: "HOnConnect k t \<in> set hs"
    using assms(3) by (force simp: hs_def listenersFor_def)
  note c = connect_listeners(2) [OF assms(1,2), folded hs_def]
  have "k < length (promises s1)" "promises s1 ! k = Pending \<or> promises s1 ! k = Resolved True"
    using assms(4,5) by (simp_all add: s1_def)
  from dispatch_connect_promise [OF c this, of arg now] m e show ?thesis by auto
qed

text \<open>
  Claim C6. In every reachable state: called on a connected transport, \<open>ensureConnected\<close>
  returns a promise already resolved \<open>true\<close> and changes nothing else, so it installs no
  listener; called without a transport it returns a promise already resolved \<open>false\<close>;
  otherwise it calls \<open>connect()\<close>, installs its \<open>onConnect\<close> listener and a timeout due
  10000 ms later, and leaves the promise pending. While the promise is pending, a \<open>connect\<close>
  event on the transport carrying the listener resolves it \<open>true\<close>, the timeout resolves it
  \<open>false\<close> when it fires, and it does not fire before it is due. No promise is ever
  rejected (the executor has no statement that throws and never calls \<open>reject\<close>), and a
  resolved promise keeps its value through every later turn.
\<close>

theorem ensureConnected_resolution:
  "(transportConnected (run tr initial) \<longrightarrow>
      ensureConnected now (run tr initial)
        = (run tr initial)\<lparr>promises := promises (run tr initial) @ [Resolved True]\<rparr>)
   \<and> (socketRef (run tr initial) = None \<longrightarrow>
      ensureConnected now (run tr initial)
        = (run tr initial)\<lparr>promises := promises (run tr initial) @ [Resolved False]\<rparr>)
   \<and> (socketRef (run tr initial) = Some sk \<and> \<not> connected sk \<longrightarrow>
      ensureConnected now (run tr initial)
        = (run tr initial)\<lparr>promises := promises (run tr initial) @ [Pending],
            isConnecting := True,
            timeouts := timeouts (run tr initial)
              @ [(nextTimer (run tr initial), now + 10000, length (promises (run tr initial)))],
            nextTimer := Suc (nextTimer (run tr initial)),
            socketRef := Some (sk\<lparr>connectCalls := connectCalls sk + 1,
              listeners := listeners sk
                @ [(''connect'', HOnConnect (length (promises (run tr initial)))
                                            (nextTimer (run tr initial)))]\<rparr>)\<rparr>)
   \<and> (socketRef (run tr initial) = Some sk
        \<and> (''connect'', HOnConnect k t) \<in> set (listeners sk)
        \<and> k < length (promises (run tr initial)) \<and> promises (run tr initial) ! k = Pending \<longrightarrow>
      promises (step now (Transport ''connect'' arg) (run tr initial)) ! k = Resolved True)
   \<and> ((t, due, k) \<in> set (timeouts (run tr initial))
        \<and> k < length (promises (run tr initial)) \<and> promises (run tr initial) ! k = Pending \<longrightarrow>
      (due \<le> now \<longrightarrow>
         promises (step now (TimeoutFire t) (run tr initial)) ! k = Resolved False)
      \<and> (now < due \<longrightarrow> step now (TimeoutFire t) (run tr initial) = run tr initial))
   \<and> Rejected \<notin> set (promises (run tr initial))
   \<and> (k < length (promises (run tr initial)) \<and> promises (run tr initial) ! k = Resolved v \<longrightarrow>
      promises (step now a (run tr initial)) ! k = Resolved v)"
proof -
  define s where "s = run tr initial"
  have w: "wf s" using reachable [of tr] by (simp add: s_def)
  have f: "timersFresh s" using timersFresh_reachable [of tr] by (simp add: s_def)
  have p1: "transportConnected s \<Longrightarrow>
      ensureConnected now s = s\<lparr>promises := promises s @ [Resolved True]\<rparr>"
    by (simp add: ensureConnected_def resolve_def transportConnected_def Let_def)
  have p2: "socketRef s = None \<Longrightarrow>
      ensureConnected now s = s\<lparr>promises := promises s @ [Resolved False]\<rparr>"
    by (simp add: ensureConnected_def resolve_def transportConnected_def Let_def)
  have p3: "socketRef s = Some sk \<Longrightarrow> \<not> connected sk \<Longrightarrow>
      ensureConnected now s
        = s\<lparr>promises := promises s @ [Pending], isConnecting := True,
            timeouts := timeouts s @ [(nextTimer s, now + 10000, length (promises s))],
            nextTimer := Suc (nextTimer s),
            socketRef := Some (sk\<lparr>connectCalls := connectCalls sk + 1,
              listeners := listeners sk
                @ [(''connect'', HOnConnect (length (promises s)) (nextTimer s))]\<rparr>)\<rparr>"
    by (simp add: ensureConnected_def transportConnected_def Let_def)
  have p4: "socketRef s = Some sk \<Longrightarrow> (''connect'', HOnConnect k t) \<in> set (listeners sk) \<Longrightarrow>
      k < length (promises s) \<Longrightarrow> promises s ! k = Pending \<Longrightarrow>
      promises (step now (Transport ''connect'' arg) s) ! k = Resolved True"
    using connect_resolves [OF w, of sk k t arg now] by simp
  have p5: "(t, due, k) \<in> set (timeouts s) \<Longrightarrow> k < length (promises s) \<Longrightarrow>
      promises s ! k = Pending \<Longrightarrow>
      (due \<le> now \<longrightarrow> promises (step now (TimeoutFire t) s) ! k = Resolved False)
      \<and> (now < due \<longrightarrow> step now (TimeoutFire t) s = s)"
    using timeout_fires [OF f, of t due k now] timeout_resolves [of k s t] by simp
  have p6: "Rejected \<notin> set (promises s)"
    using settles_keeps(3) [OF settles_run [of initial tr]] by (auto simp: s_def initial_def)
  have p7: "k < length (promises s) \<Longrightarrow> promises s ! k = Resolved v \<Longrightarrow>
      promises (step now a s) ! k = Resolved v"
    using settles_keeps(2) [OF settles_step [of s now a], of k] by simp
  from p1 p2 p3 p4 p5 p6 p7 show ?thesis unfolding s_def by blast
qed

theorem ensureConnected_resolution_witness:
  "transportConnected (run connectedSession initial)
   \<and> promises (ensureConnected 60 (run connectedSession initial)) = [Resolved True]
   \<and> socketRef initial = None \<and> promises (ensureConnected 60 initial) = [Resolved False]
   \<and> (1, 10005, 0) \<in> set (timeouts (run waiting initial))
   \<and> promises (run waiting initial) = [Pending]
   \<and> promises (step 10005 (TimeoutFire 1) (run waiting initial)) ! 0 = Resolved False
   \<and> step 10004 (TimeoutFire 1) (run waiting initial) = run waiting initial
   \<and> promises (step 9000 (Transport ''connect'' Undefined) (run waiting initial)) ! 0
       = Resolved True"
proof -
  have c: "transportConnected (run connectedSession initial)"
    "promises (run connectedSession initial) = []"
    by (simp_all add: connectedSession_def session_def run_defs)
  have n: "socketRef initial = None" "promises initial = []" by (simp_all add: initial_def)
  have q: "(1, 10005, 0) \<in> set (timeouts (run waiting initial))"
    "promises (run waiting initial) = [Pending]"
    "map_option listeners (socketRef (run waiting initial))
       = Some (core_listeners @ [(''connect'', HOnConnect 0 1)])"
    by (simp_all add: waiting_def session_def run_defs)
  then obtain sk where sk: "socketRef (run waiting initial) = Some sk"
    "listeners sk = core_listeners @ [(''connect'', HOnConnect 0 1)]" by auto
  note t = ensureConnected_resolution
  show ?thesis
    using c n q(1,2) sk
      t [where tr = connectedSession and now = 60]
      t [where tr = "[]" and now = 60]
      t [where tr = waiting and now = 10005 and sk = sk and k = 0 and t = 1 and due = 10005]
      t [where tr = waiting and now = 10004 and sk = sk and k = 0 and t = 1 and due = 10005]
      t [where tr = waiting and now = 9000 and sk = sk and k = 0 and t = 1 and due = 10005
           and arg = Undefined]
    by simp
qed

end
